theory Spec2Isabelle
  imports Main
begin


section \<open>Strings and decimal numerals\<close>

text \<open>
  Branch names, messages and refs are JavaScript strings; they are modelled as HOL strings
  (lists of 8-bit characters), which covers the ASCII and Latin-1 names that branch names
  are made of.
\<close>

definition is_digit :: "char \<Rightarrow> bool" where
  "is_digit c = (c \<in> set ''0123456789'')"

definition digit_char :: "nat \<Rightarrow> char" where
  "digit_char n = ''0123456789'' ! (n mod 10)"

definition digit_value :: "char \<Rightarrow> nat" where
  "digit_value c = of_char c - 48"

text \<open>The decimal numeral of a natural number, without leading zeros.\<close>

fun decimal :: "nat \<Rightarrow> string" where
  "decimal n = (if n < 10 then [digit_char n] else decimal (n div 10) @ [digit_char n])"

declare decimal.simps [simp del]

text \<open>The number a string of decimal digits denotes, read from the left.\<close>

definition digits_value :: "string \<Rightarrow> nat" where
  "digits_value ds = foldl (\<lambda>acc c. 10 * acc + digit_value c) 0 ds"

definition show_int :: "int \<Rightarrow> string" where
  "show_int i = (if i < 0 then ''-'' @ decimal (nat (- i)) else decimal (nat i))"

section \<open>JavaScript numbers\<close>

text \<open>
  \<open>parseInt(m[1]) + 1\<close> is computed on IEEE 754 doubles. The only values that can arise
  there are non-negative integers, \<open>Infinity\<close> (a digit string beyond the range of
  doubles) and \<open>NaN\<close> (\<open>parseInt\<close> of something that does not start with a digit).
  \<open>Fin v\<close> is the double whose value is the integer \<open>v\<close>.
\<close>

datatype number = Fin nat | PosInf | NaN

fun bit_length :: "nat \<Rightarrow> nat" where
  "bit_length n = (if n = 0 then 0 else Suc (bit_length (n div 2)))"

declare bit_length.simps [simp del]

text \<open>
  Rounding of a non-negative integer to the nearest integer with a 53-bit significand,
  ties to the even significand.
\<close>

definition round_even :: "nat \<Rightarrow> nat" where
  "round_even v =
     (if v < 2 ^ 53 then v
      else let e = bit_length v - 53;
               q = v div 2 ^ e;
               r = v mod 2 ^ e;
               h = 2 ^ (e - 1)
           in if h < r \<or> (r = h \<and> odd q) then (q + 1) * 2 ^ e else q * 2 ^ e)"

text \<open>The Number value of a non-negative integer: rounded, and \<open>Infinity\<close> from \<open>2^1024\<close> on.\<close>

definition to_number :: "nat \<Rightarrow> number" where
  "to_number v = (let r = round_even v in if 2 ^ 1024 \<le> r then PosInf else Fin r)"

text \<open>
  \<open>parseInt\<close> is only ever applied to \<open>m[1]\<close>: the text of the group \<open>(\\d+)\<close>, or
  \<open>undefined\<close> (\<open>None\<close>) when the group took no part in the match. It reads the leading
  decimal digits and yields \<open>NaN\<close> when there are none; the digits are converted exactly
  and rounded once, as V8 does.
\<close>

definition parseInt :: "string option \<Rightarrow> number" where
  "parseInt a =
     (case a of
        None \<Rightarrow> NaN
      | Some s \<Rightarrow>
          (let ds = takeWhile is_digit s
           in if ds = [] then NaN else to_number (digits_value ds)))"

text \<open>\<open>x + 1\<close> on doubles: the exact sum, rounded.\<close>

definition plus_one :: "number \<Rightarrow> number" where
  "plus_one x = (case x of Fin v \<Rightarrow> to_number (v + 1) | PosInf \<Rightarrow> PosInf | NaN \<Rightarrow> NaN)"

text \<open>
  Number-to-string conversion, as a template literal applies it. An integer below \<open>2^53\<close>
  prints in full. From \<open>2^53\<close> on, the digits printed are those of the decimal with the
  fewest significant digits that still rounds to the double, the closest such decimal
  when there are two (an even last digit on a tie); \<open>shortest v j\<close> looks for it among the
  multiples of \<open>10^j\<close>, from the coarsest down. With more than 21 digits the exponent
  notation is used.
\<close>

fun shortest :: "nat \<Rightarrow> nat \<Rightarrow> nat" where
  "shortest v 0 = v"
| "shortest v (Suc j) =
     (let sc = 10 ^ Suc j;
          lo = (v div sc) * sc;
          hi = lo + sc;
          ok_lo = (round_even lo = v);
          ok_hi = (round_even hi = v)
      in if ok_lo \<and> ok_hi then
           (if v - lo < hi - v then lo
            else if hi - v < v - lo then hi
            else if even (v div sc) then lo else hi)
         else if ok_lo then lo
         else if ok_hi then hi
         else shortest v j)"

fun strip_zeros :: "string \<Rightarrow> string" where
  "strip_zeros s = rev (dropWhile (\<lambda>c. c = CHR ''0'') (rev s))"

definition exponent_form :: "string \<Rightarrow> string" where
  "exponent_form ds =
     (let s = strip_zeros ds; e = ''e+'' @ decimal (length ds - 1)
      in if length s = 1 then s @ e else [hd s] @ ''.'' @ tl s @ e)"

definition Number_toString :: "number \<Rightarrow> string" where
  "Number_toString x =
     (case x of
        NaN \<Rightarrow> ''NaN''
      | PosInf \<Rightarrow> ''Infinity''
      | Fin v \<Rightarrow>
          if v < 2 ^ 53 then decimal v
          else let ds = decimal (shortest v (length (decimal v) - 1))
               in if length ds \<le> 21 then ds else exponent_form ds)"

section \<open>Regular expressions\<close>

text \<open>
  The fragment of JavaScript's pattern language that the three patterns of the action
  are written in: single characters, \<open>.\<close>, \<open>\\d\<close> (the same set as \<open>[0-9]\<close>), the greedy
  quantifiers \<open>*\<close>, \<open>+\<close>, \<open>?\<close> on a single character, \<open>^\<close>, \<open>$\<close>, one capturing group and
  alternation. No flag is set: matching is case-sensitive, \<open>.\<close> excludes the line
  terminators, and \<open>^\<close> and \<open>$\<close> match at the two ends of the input only.
\<close>

datatype cls = Lit char | Dot | Digit

datatype quant = Once | Star | Plus | Opt

datatype node = Atom cls quant | Bol | Eol | Cap "node list" | Alt "node list" "node list"

fun cmatch :: "cls \<Rightarrow> char \<Rightarrow> bool" where
  "cmatch (Lit a) c = (c = a)"
| "cmatch Dot c = (c \<noteq> CHR 0x0A \<and> c \<noteq> CHR 0x0D)"
| "cmatch Digit c = is_digit c"

text \<open>
  A matcher state is the index reached in the input, the text of group 1 (\<open>None\<close> while
  the group has not matched) and the rest of the input. Every function returns the states
  it can reach, in the order in which a backtracking matcher tries them: the first state
  of the list is the match JavaScript reports.
\<close>

type_synonym mstate = "nat \<times> string option \<times> string"

fun star :: "cls \<Rightarrow> nat \<Rightarrow> string \<Rightarrow> (nat \<times> string) list" where
  "star c p [] = [(p, [])]"
| "star c p (x # xs) = (if cmatch c x then star c (Suc p) xs else []) @ [(p, x # xs)]"

fun once :: "cls \<Rightarrow> nat \<Rightarrow> string \<Rightarrow> (nat \<times> string) list" where
  "once c p [] = []"
| "once c p (x # xs) = (if cmatch c x then [(Suc p, xs)] else [])"

fun atom :: "cls \<Rightarrow> quant \<Rightarrow> nat \<Rightarrow> string \<Rightarrow> (nat \<times> string) list" where
  "atom c Once p s = once c p s"
| "atom c Star p s = star c p s"
| "atom c Plus p s = concat (map (\<lambda>(p', s'). star c p' s') (once c p s))"
| "atom c Opt p s = once c p s @ [(p, s)]"

fun mt :: "node \<Rightarrow> mstate \<Rightarrow> mstate list"
  and mts :: "node list \<Rightarrow> mstate \<Rightarrow> mstate list" where
  "mt (Atom c q) (p, g, s) = map (\<lambda>(p', s'). (p', g, s')) (atom c q p s)"
| "mt Bol (p, g, s) = (if p = 0 then [(p, g, s)] else [])"
| "mt Eol (p, g, s) = (if s = [] then [(p, g, s)] else [])"
| "mt (Cap ns) (p, g, s) =
     map (\<lambda>(p', g', s'). (p', Some (take (p' - p) s), s')) (mts ns (p, g, s))"
| "mt (Alt as bs) st = mts as st @ mts bs st"
| "mts [] st = [st]"
| "mts (n # ns) st = concat (map (mts ns) (mt n st))"

text \<open>
  \<open>String.prototype.match\<close> with a pattern without the \<open>g\<close> flag: the pattern is tried at
  index 0, then 1, and so on to the end of the input; the result is \<open>null\<close> (\<open>None\<close>) or the
  match, of which only \<open>m[1]\<close> is kept (\<open>None\<close> for \<open>undefined\<close>).
\<close>

fun exec_from :: "node list \<Rightarrow> nat \<Rightarrow> string \<Rightarrow> string option option" where
  "exec_from r p s =
     (case mts r (p, None, s) of
        st # _ \<Rightarrow> Some (fst (snd st))
      | [] \<Rightarrow> (case s of [] \<Rightarrow> None | x # xs \<Rightarrow> exec_from r (Suc p) xs))"

declare exec_from.simps [simp del]

definition match :: "string \<Rightarrow> node list \<Rightarrow> string option option" where
  "match s r = exec_from r 0 s"

subsection \<open>The branch prefix as a pattern\<close>

text \<open>
  \<open>new RegExp(`^${branch_prefix}(\\d+)\\.x$`)\<close> pastes the prefix into the pattern source,
  so the prefix is read as a pattern. \<open>compile_prefix\<close> reads it in the fragment above: a
  character that is not a syntax character stands for itself, \<open>.\<close> for any character but
  a line terminator, and \<open>*\<close>, \<open>+\<close>, \<open>?\<close> quantify the character before them. The result is
  \<open>None\<close> for a prefix outside the fragment (any other use of a syntax character), which
  includes the prefixes for which \<open>new RegExp\<close> throws.
\<close>

definition syntax_char :: "char \<Rightarrow> bool" where
  "syntax_char c = (c \<in> set ''^$.*+?()[]{}|'' \<or> c = CHR 0x5C)"

definition quant_of :: "char \<Rightarrow> quant option" where
  "quant_of c =
     (if c = CHR ''*'' then Some Star else if c = CHR ''+'' then Some Plus
      else if c = CHR ''?'' then Some Opt else None)"

definition cls_of :: "char \<Rightarrow> cls option" where
  "cls_of c = (if c = CHR ''.'' then Some Dot else if syntax_char c then None else Some (Lit c))"

fun compile_prefix :: "string \<Rightarrow> node list option" where
  "compile_prefix [] = Some []"
| "compile_prefix [c] = map_option (\<lambda>a. [Atom a Once]) (cls_of c)"
| "compile_prefix (c # d # r) =
     (case cls_of c of
        None \<Rightarrow> None
      | Some a \<Rightarrow>
          (case quant_of d of
             Some q \<Rightarrow> map_option ((#) (Atom a q)) (compile_prefix r)
           | None \<Rightarrow> map_option ((#) (Atom a Once)) (compile_prefix (d # r))))"

section \<open>The branch flow\<close>

text \<open>The constants that \<open>index.js\<close> computes when it is loaded (lines 13 to 16).\<close>

record globals =
  branch_prefix :: string
  develop_branch_pattern :: "node list"
  release_branch_pattern :: "node list"

definition load :: "string \<Rightarrow> globals option" where
  "load pfx =
     map_option
       (\<lambda>p. \<lparr>branch_prefix = pfx,
             develop_branch_pattern =
               [Bol] @ p @ [Cap [Atom Digit Plus], Atom (Lit CHR ''.'') Once,
                            Atom (Lit CHR ''x'') Once, Eol],
             release_branch_pattern =
               [Bol] @ p @ [Cap [Atom Digit Plus], Atom (Lit CHR ''.'') Once,
                            Atom Digit Plus, Eol]\<rparr>)
       (compile_prefix pfx)"

text \<open>\<open>`${m[1]}`\<close>: an \<open>undefined\<close> group prints as the word.\<close>

definition group_text :: "string option \<Rightarrow> string" where
  "group_text g = (case g of None \<Rightarrow> ''undefined'' | Some s \<Rightarrow> s)"

definition flow :: "globals \<Rightarrow> string \<Rightarrow> string option" where
  "flow K branch =
     (case match branch (develop_branch_pattern K) of
        Some g \<Rightarrow> Some (branch_prefix K @ Number_toString (plus_one (parseInt g)) @ ''.x'')
      | None \<Rightarrow>
          (case match branch (release_branch_pattern K) of
             Some g \<Rightarrow> Some (branch_prefix K @ group_text g @ ''.x'')
           | None \<Rightarrow> None))"

text \<open>
  The resolver as the specification calls it, \<open>resolve(branchName, prefix)\<close>: the flow of
  a branch name under the constants of a prefix. The outer \<open>None\<close> is a prefix outside the
  fragment of the pattern language; \<open>Some None\<close> is \<open>null\<close>.
\<close>

definition resolve :: "string \<Rightarrow> string \<Rightarrow> string option option" where
  "resolve branch pfx = map_option (\<lambda>K. flow K branch) (load pfx)"

subsection \<open>The branch names of the specification\<close>

text \<open>
  The two shapes of branch name as the specification words them, with the prefix taken
  as a plain string: a development branch is \<open><prefix><N>.x\<close>, a release branch is
  \<open><prefix><N>.<M>\<close>, with \<open>N\<close> and \<open>M\<close> non-empty strings of digits.
\<close>

fun strip_prefix :: "string \<Rightarrow> string \<Rightarrow> string option" where
  "strip_prefix [] s = Some s"
| "strip_prefix (c # cs) [] = None"
| "strip_prefix (c # cs) (x # xs) = (if c = x then strip_prefix cs xs else None)"

definition development_name :: "string \<Rightarrow> string \<Rightarrow> bool" where
  "development_name pfx b =
     (case strip_prefix pfx b of
        None \<Rightarrow> False
      | Some r \<Rightarrow> takeWhile is_digit r \<noteq> [] \<and> dropWhile is_digit r = ''.x'')"

definition release_name :: "string \<Rightarrow> string \<Rightarrow> bool" where
  "release_name pfx b =
     (case strip_prefix pfx b of
        None \<Rightarrow> False
      | Some r \<Rightarrow>
          takeWhile is_digit r \<noteq> [] \<and>
          (case dropWhile is_digit r of
             [] \<Rightarrow> False
           | c # m \<Rightarrow> c = CHR ''.'' \<and> m \<noteq> [] \<and> list_all is_digit m))"

text \<open>A prefix without any syntax character of the pattern language, and its pattern.\<close>

definition literal :: "string \<Rightarrow> bool" where
  "literal p = list_all (\<lambda>c. \<not> syntax_char c) p"

definition lits :: "string \<Rightarrow> node list" where
  "lits p = map (\<lambda>c. Atom (Lit c) Once) p"

subsection \<open>A name for a compiled prefix\<close>

text \<open>
  For a compiled prefix, \<open>sample\<close> is a string that it matches: the character itself for
  a literal, \<open>X\<close> for \<open>.\<close>, each taken once whatever the quantifier. A \<open>plain_atom\<close> is
  what \<open>compile_prefix\<close> produces: a literal that is not a syntax character, or \<open>.\<close>.
\<close>

fun sample_char :: "cls \<Rightarrow> char" where
  "sample_char (Lit c) = c"
| "sample_char Dot = CHR ''X''"
| "sample_char Digit = CHR ''0''"

fun sample :: "node list \<Rightarrow> string" where
  "sample [] = []"
| "sample (Atom a q # ns) = sample_char a # sample ns"
| "sample (n # ns) = sample ns"

definition plain_atom :: "node \<Rightarrow> bool" where
  "plain_atom n =
     (case n of
        Atom (Lit c) q \<Rightarrow> \<not> syntax_char c
      | Atom Dot q \<Rightarrow> True
      | _ \<Rightarrow> False)"

section \<open>The run\<close>

text \<open>
  The fields of the \<open>pull_request\<close> payload that the action reads; \<open>owner\<close> and \<open>repo\<close>
  are those of \<open>pull.base.repo\<close>. The event is well-formed: every field is present. The
  numbers of pull requests and the clock are integers that print in full (they are far
  below \<open>2^53\<close>).
\<close>

record pull_request =
  base_ref :: string
  head_ref :: string
  head_sha :: string
  pull_number :: int
  user_login :: string
  owner :: string
  repo :: string

text \<open>The requests the action sends, with the arguments it sends them with.\<close>

datatype call =
    DeleteRef string string string
  | GetBranch string string string
  | CreateRef string string string string
  | MergeBranch string string string string
  | PullsCreate string string string string string string
  | GraphqlPullRequestId string string int
  | GraphqlEnableAutoMerge string string
  | IssuesUpdate string string int "string list"

text \<open>
  What an invocation does, in order: each request with its outcome (\<open>Some e\<close> when the
  call throws an error with message \<open>e\<close>), and each line it logs. An error is taken to be
  its message, so \<open>core.error(err)\<close> is \<open>CoreError e\<close>. \<open>SetFailed\<close> is \<open>core.setFailed\<close>,
  which sets the exit status of the run to failed.
\<close>

datatype entry =
    Call call "string option"
  | ConsoleLog string
  | CoreError string
  | CoreWarning string
  | CoreInfo string
  | SetFailed string

text \<open>
  The outside world of one invocation: the answer of the repository service at each call
  site (\<open>Inl e\<close> for an error with message \<open>e\<close>) and the clock. No call site is run twice,
  so one answer for each is every behaviour the service can show to one invocation.
\<close>

record responses =
  on_deleteRef :: "string + unit"
  on_getBranch :: "string + unit"
  on_createRef :: "string + unit"
  on_createRef_retry :: "string + unit"
  on_merge :: "string + unit"
  on_pulls_create :: "string + int"
  on_graphql_id :: "string + string"
  on_graphql_enable :: "string + unit"
  on_issues_update :: "string + unit"
  date_now :: int

text \<open>The error an answer throws, if it does; and the line break of the template literals.\<close>

definition thrown :: "string + 'a \<Rightarrow> string option" where
  "thrown r = (case r of Inl e \<Rightarrow> Some e | Inr _ \<Rightarrow> None)"

definition nl :: string where
  "nl = [CHR 0x0A]"

text \<open>\<open>/-merge-[0-9]+\\.([0-9]+|x)$/\<close>, the pattern of line 89.\<close>

definition cleanup_pattern :: "node list" where
  "cleanup_pattern =
     lits ''-merge-'' @
     [Atom Digit Plus, Atom (Lit CHR ''.'') Once,
      Cap [Alt [Atom Digit Plus] [Atom (Lit CHR ''x'') Once]], Eol]"

text \<open>
  \<open>enablePullRequestAutomerge\<close>: the query for the node id of the pull request, then the
  mutation; an error of either is thrown to the caller.
\<close>

definition enablePullRequestAutomerge ::
  "pull_request \<Rightarrow> responses \<Rightarrow> int \<Rightarrow> entry list \<times> (string + unit)" where
  "enablePullRequestAutomerge pull env n =
     (case on_graphql_id env of
        Inl e \<Rightarrow> ([Call (GraphqlPullRequestId (owner pull) (repo pull) n) (Some e)], Inl e)
      | Inr prid \<Rightarrow>
          ([Call (GraphqlPullRequestId (owner pull) (repo pull) n) None,
            Call (GraphqlEnableAutoMerge prid ''MERGE'') (thrown (on_graphql_enable env))],
           (case on_graphql_enable env of Inl e \<Rightarrow> Inl e | Inr _ \<Rightarrow> Inr ())))"

text \<open>Lines 88 to 97: clean up the old merge-down branch.\<close>

definition cleanup_step :: "pull_request \<Rightarrow> responses \<Rightarrow> entry list" where
  "cleanup_step pull env =
     (let branch = head_ref pull
      in if match branch cleanup_pattern \<noteq> None then
           [ConsoleLog (''Cleaning up old merge-down branch: '' @ branch),
            Call (DeleteRef (owner pull) (repo pull) (''heads/'' @ branch))
                 (thrown (on_deleteRef env))] @
           (case on_deleteRef env of
              Inl e \<Rightarrow> [CoreError e, CoreWarning ''Failed to delete old merge-down branch'']
            | Inr _ \<Rightarrow> [])
         else [])"

text \<open>Lines 99 to 106: check that the target branch exists; \<open>False\<close> is the early return.\<close>

definition target_step :: "pull_request \<Rightarrow> responses \<Rightarrow> string \<Rightarrow> entry list \<times> bool" where
  "target_step pull env target =
     (case on_getBranch env of
        Inl e \<Rightarrow>
          ([Call (GetBranch (owner pull) (repo pull) target) (Some e),
            CoreError e,
            CoreWarning (''Skipping merge-down for non-existant branch: '' @ [CHR 0x27] @
                         target @ [CHR 0x27])],
           False)
      | Inr _ \<Rightarrow> ([Call (GetBranch (owner pull) (repo pull) target) None], True))"

text \<open>
  Lines 108 to 119: create the merge candidate branch. The result is the name of the
  branch, or the error that the second \<open>createRef\<close> throws out of its \<open>catch\<close> block.
\<close>

definition create_step ::
  "pull_request \<Rightarrow> responses \<Rightarrow> string \<Rightarrow> entry list \<times> (string + string)" where
  "create_step pull env target =
     (let branch = head_ref pull;
          new_branch = branch @ ''-merge-'' @ target;
          first = [ConsoleLog (''Creating new remote branch: '' @ new_branch),
                   Call (CreateRef (owner pull) (repo pull) (''refs/heads/'' @ new_branch)
                           (head_sha pull))
                        (thrown (on_createRef env))]
      in case on_createRef env of
           Inr _ \<Rightarrow> (first, Inr new_branch)
         | Inl err \<Rightarrow>
             (let new_branch = branch @ ''-'' @ show_int (date_now env) @ ''-merge-'' @ target;
                  again = first @
                    [CoreError err,
                     CoreWarning (''Branch exists, creating '' @ [CHR 0x27] @ new_branch @
                                  [CHR 0x27] @ '' instead''),
                     Call (CreateRef (owner pull) (repo pull) (''refs/heads/'' @ new_branch)
                             (head_sha pull))
                          (thrown (on_createRef_retry env))]
              in case on_createRef_retry env of
                   Inl e \<Rightarrow> (again, Inl e)
                 | Inr _ \<Rightarrow> (again, Inr new_branch)))"

text \<open>Lines 121 to 131: merge the target into the new branch; the result is \<open>automerge\<close>.\<close>

definition merge_step ::
  "pull_request \<Rightarrow> responses \<Rightarrow> string \<Rightarrow> string \<Rightarrow> entry list \<times> bool" where
  "merge_step pull env target new_branch =
     (let req = [ConsoleLog (''Updating branch (merging '' @ [CHR 0x27] @ target @ [CHR 0x27] @
                             '' into '' @ [CHR 0x27] @ new_branch @ '')''),
                 Call (MergeBranch (owner pull) (repo pull) new_branch target)
                      (thrown (on_merge env))]
      in case on_merge env of
           Inl e \<Rightarrow>
             (req @ [CoreError e,
                     CoreWarning (''GitHub failed to merge '' @ target @ '' into '' @ new_branch)],
              False)
         | Inr _ \<Rightarrow> (req, True))"

definition pull_title :: "string \<Rightarrow> string \<Rightarrow> string" where
  "pull_title branch target =
     ''Merge branch '' @ [CHR 0x27] @ branch @ [CHR 0x27] @ '' into '' @ target"

definition pull_body :: "pull_request \<Rightarrow> string \<Rightarrow> string \<Rightarrow> string" where
  "pull_body pull target new_branch =
     ''This pull request was automatically generated from #'' @ show_int (pull_number pull) @
     '' to ensure that the changes introduced into `'' @ base_ref pull @
     ''` by that pull request also make their way into the `'' @ target @ ''` branch.'' @
     nl @ nl @
     ''  If there are merge conflicts, try merging `'' @ target @ ''` into this branch.'' @ nl @
     ''  ```bash'' @ nl @
     ''  git fetch origin'' @ nl @
     ''  git checkout -b '' @ new_branch @ '' origin/'' @ new_branch @ nl @
     ''  git merge origin/'' @ target @ nl @
     ''  # resolve any conflicts'' @ nl @
     ''  git push origin '' @ new_branch @ nl @
     ''  ```'' @ nl @
     ''  ''"

text \<open>
  Lines 133 to 148: create the pull request. The result is its number, or the error that
  \<open>pulls.create\<close> throws, which no \<open>catch\<close> block of the step holds back.
\<close>

definition pull_step ::
  "pull_request \<Rightarrow> responses \<Rightarrow> string \<Rightarrow> string \<Rightarrow> entry list \<times> (string + int)" where
  "pull_step pull env target new_branch =
     (let req = [ConsoleLog (''Creating pull request to merge '' @ [CHR 0x27] @ new_branch @
                             [CHR 0x27] @ '' into '' @ target),
                 Call (PullsCreate (owner pull) (repo pull) (pull_title (head_ref pull) target)
                         target new_branch (pull_body pull target new_branch))
                      (thrown (on_pulls_create env))]
      in case on_pulls_create env of
           Inl e \<Rightarrow> (req, Inl e)
         | Inr n \<Rightarrow> (req @ [CoreInfo (''Created pull request: #'' @ show_int n)], Inr n))"

text \<open>Lines 150 to 161: enable auto-merge, unless the update failed.\<close>

definition automerge_step :: "pull_request \<Rightarrow> responses \<Rightarrow> bool \<Rightarrow> int \<Rightarrow> entry list" where
  "automerge_step pull env automerge n =
     (if automerge then
        (case enablePullRequestAutomerge pull env n of
           (tr, Inl e) \<Rightarrow> tr @ [CoreError e, CoreWarning ''Failed to enable auto-merge'']
         | (tr, Inr _) \<Rightarrow> tr) @
        [ConsoleLog ''Auto-merge enabled'']
      else [CoreWarning ''Skipping auto-merge because there are merge conflicts''])"

text \<open>Lines 163 to 177: assign the pull request to the author of the original one.\<close>

definition assign_step :: "pull_request \<Rightarrow> responses \<Rightarrow> int \<Rightarrow> entry list" where
  "assign_step pull env n =
     (let actor = user_login pull
      in [ConsoleLog (''Assigning pull request to '' @ [CHR 0x27] @ actor @ [CHR 0x27]),
          Call (IssuesUpdate (owner pull) (repo pull) n [actor])
               (thrown (on_issues_update env))] @
         (case on_issues_update env of
            Inl e \<Rightarrow> [CoreError e,
                      CoreWarning (''Failed to assign #'' @ show_int n @ '' to '' @ actor)]
          | Inr _ \<Rightarrow> []))"

text \<open>
  The body of the \<open>try\<close> block of \<open>run\<close>: what it does, and the error that leaves it
  (\<open>Inl\<close>) or its normal end (\<open>Inr\<close>).
\<close>

definition run_body ::
  "globals \<Rightarrow> pull_request \<Rightarrow> responses \<Rightarrow> entry list \<times> (string + unit)" where
  "run_body K pull env =
     (let target = flow K (base_ref pull);
          branch = head_ref pull;
          t0 = [ConsoleLog (branch @ '': '' @ base_ref pull @ '' -> '' @
                            (case target of None \<Rightarrow> ''null'' | Some t \<Rightarrow> t))]
      in case target of
           None \<Rightarrow>
             (t0 @ [CoreWarning (''Base branch is not a release or development branch: '' @
                                 base_ref pull @ '' (branch-prefix: '' @ branch_prefix K @
                                 '')'')],
              Inr ())
         | Some target \<Rightarrow>
             (let t1 = t0 @ cleanup_step pull env
              in case target_step pull env target of
                   (t2, False) \<Rightarrow> (t1 @ t2, Inr ())
                 | (t2, True) \<Rightarrow>
                     (case create_step pull env target of
                        (t3, Inl e) \<Rightarrow> (t1 @ t2 @ t3, Inl e)
                      | (t3, Inr new_branch) \<Rightarrow>
                          (case merge_step pull env target new_branch of
                             (t4, automerge) \<Rightarrow>
                               (case pull_step pull env target new_branch of
                                  (t5, Inl e) \<Rightarrow> (t1 @ t2 @ t3 @ t4 @ t5, Inl e)
                                | (t5, Inr n) \<Rightarrow>
                                    (t1 @ t2 @ t3 @ t4 @ t5 @
                                     automerge_step pull env automerge n @
                                     assign_step pull env n,
                                     Inr ()))))))"

text \<open>\<open>run\<close>: the \<open>try\<close> block, and \<open>core.setFailed(error.message)\<close> in its \<open>catch\<close>.\<close>

definition run :: "globals \<Rightarrow> pull_request \<Rightarrow> responses \<Rightarrow> entry list" where
  "run K pull env =
     (case run_body K pull env of
        (tr, Inl message) \<Rightarrow> tr @ [SetFailed message]
      | (tr, Inr _) \<Rightarrow> tr)"

subsection \<open>Reading a trace\<close>

fun is_SetFailed :: "entry \<Rightarrow> bool" where
  "is_SetFailed (SetFailed m) = True"
| "is_SetFailed _ = False"

text \<open>The exit status of the run is failed when \<open>core.setFailed\<close> was called.\<close>

definition failed :: "entry list \<Rightarrow> bool" where
  "failed tr = list_ex is_SetFailed tr"

text \<open>The requests of a trace with their outcomes, in order.\<close>

fun calls :: "entry list \<Rightarrow> (call \<times> string option) list" where
  "calls [] = []"
| "calls (Call c r # tr) = (c, r) # calls tr"
| "calls (_ # tr) = calls tr"

fun is_CreateRef :: "call \<Rightarrow> bool" where
  "is_CreateRef (CreateRef a b c d) = True"
| "is_CreateRef _ = False"

fun is_PullsCreate :: "call \<Rightarrow> bool" where
  "is_PullsCreate (PullsCreate a b c d e f) = True"
| "is_PullsCreate _ = False"

fun is_DeleteRef :: "call \<Rightarrow> bool" where
  "is_DeleteRef (DeleteRef a b c) = True"
| "is_DeleteRef _ = False"

fun is_GetBranch :: "call \<Rightarrow> bool" where
  "is_GetBranch (GetBranch a b c) = True"
| "is_GetBranch _ = False"

fun is_MergeBranch :: "call \<Rightarrow> bool" where
  "is_MergeBranch (MergeBranch a b c d) = True"
| "is_MergeBranch _ = False"

fun is_IssuesUpdate :: "call \<Rightarrow> bool" where
  "is_IssuesUpdate (IssuesUpdate a b c d) = True"
| "is_IssuesUpdate _ = False"

fun is_Graphql :: "call \<Rightarrow> bool" where
  "is_Graphql (GraphqlPullRequestId a b c) = True"
| "is_Graphql (GraphqlEnableAutoMerge a b) = True"
| "is_Graphql _ = False"

text \<open>The requests of one kind, picked by a test on the request, with their outcomes.\<close>

definition requests :: "(call \<Rightarrow> bool) \<Rightarrow> entry list \<Rightarrow> (call \<times> string option) list" where
  "requests kind tr = filter (\<lambda>(c, r). kind c) (calls tr)"

text \<open>The outcomes of the requests of one kind, in the order they were sent.\<close>

definition outcomes :: "(call \<Rightarrow> bool) \<Rightarrow> entry list \<Rightarrow> string option list" where
  "outcomes kind tr = map snd (filter (\<lambda>(c, r). kind c) (calls tr))"

text \<open>How many requests of one kind succeeded: the refs or pull requests it produced.\<close>

definition succeeded :: "(call \<Rightarrow> bool) \<Rightarrow> entry list \<Rightarrow> nat" where
  "succeeded kind tr = length (filter (\<lambda>r. r = None) (outcomes kind tr))"

text \<open>
  \<open>caught tr\<close>: every request of \<open>tr\<close> that threw is followed at once by the two lines of
  its \<open>catch\<close> block, \<open>core.error(err)\<close> with the error thrown and a \<open>core.warning\<close>.
  \<open>scan\<close> reads the trace from the left and remembers which of the two lines is due.
\<close>

datatype pending = Idle | WantError string | WantWarning

fun scan :: "pending \<Rightarrow> entry list \<Rightarrow> bool" where
  "scan Idle [] = True"
| "scan (WantError e) [] = False"
| "scan WantWarning [] = False"
| "scan Idle (x # tr) = (case x of Call c (Some e) \<Rightarrow> scan (WantError e) tr | _ \<Rightarrow> scan Idle tr)"
| "scan (WantError e) (x # tr) = (case x of CoreError e' \<Rightarrow> e' = e \<and> scan WantWarning tr | _ \<Rightarrow> False)"
| "scan WantWarning (x # tr) = (case x of CoreWarning w \<Rightarrow> scan Idle tr | _ \<Rightarrow> False)"

definition caught :: "entry list \<Rightarrow> bool" where
  "caught tr = scan Idle tr"

subsection \<open>Names for the parts of a trace\<close>

text \<open>The first line the run logs, the two candidate names and the two creating requests.\<close>

definition intro :: "pull_request \<Rightarrow> string \<Rightarrow> entry list" where
  "intro pull t = [ConsoleLog (head_ref pull @ '': '' @ base_ref pull @ '' -> '' @ t)]"

definition first_name :: "pull_request \<Rightarrow> string \<Rightarrow> string" where
  "first_name pull t = head_ref pull @ ''-merge-'' @ t"

definition retry_name :: "pull_request \<Rightarrow> responses \<Rightarrow> string \<Rightarrow> string" where
  "retry_name pull env t = head_ref pull @ ''-'' @ show_int (date_now env) @ ''-merge-'' @ t"

definition create_call :: "pull_request \<Rightarrow> string \<Rightarrow> call" where
  "create_call pull name =
     CreateRef (owner pull) (repo pull) (''refs/heads/'' @ name) (head_sha pull)"

definition pull_call :: "pull_request \<Rightarrow> string \<Rightarrow> string \<Rightarrow> call" where
  "pull_call pull t nb =
     PullsCreate (owner pull) (repo pull) (pull_title (head_ref pull) t) t nb
       (pull_body pull t nb)"

subsection \<open>Examples\<close>

text \<open>
  For the concrete runs below: the constants of the empty prefix and of the prefix
  \<open>rhino-\<close>, a pull request event with a given base and head branch, and a service that
  answers every request.
\<close>

definition unprefixed :: globals where
  "unprefixed =
     \<lparr>branch_prefix = '''',
      develop_branch_pattern =
        [Bol, Cap [Atom Digit Plus], Atom (Lit CHR ''.'') Once, Atom (Lit CHR ''x'') Once, Eol],
      release_branch_pattern =
        [Bol, Cap [Atom Digit Plus], Atom (Lit CHR ''.'') Once, Atom Digit Plus, Eol]\<rparr>"

definition rhino_prefixed :: globals where
  "rhino_prefixed =
     \<lparr>branch_prefix = ''rhino-'',
      develop_branch_pattern =
        [Bol] @ lits ''rhino-'' @
        [Cap [Atom Digit Plus], Atom (Lit CHR ''.'') Once, Atom (Lit CHR ''x'') Once, Eol],
      release_branch_pattern =
        [Bol] @ lits ''rhino-'' @
        [Cap [Atom Digit Plus], Atom (Lit CHR ''.'') Once, Atom Digit Plus, Eol]\<rparr>"

definition example_pull :: "string \<Rightarrow> string \<Rightarrow> pull_request" where
  "example_pull base head =
     \<lparr>base_ref = base, head_ref = head, head_sha = ''0a1b2c'', pull_number = 41,
      user_login = ''octocat'', owner = ''mcneel'', repo = ''rhino''\<rparr>"

definition all_ok :: responses where
  "all_ok =
     \<lparr>on_deleteRef = Inr (), on_getBranch = Inr (), on_createRef = Inr (),
      on_createRef_retry = Inr (), on_merge = Inr (), on_pulls_create = Inr 42,
      on_graphql_id = Inr ''PR_kwDO'', on_graphql_enable = Inr (),
      on_issues_update = Inr (), date_now = 1700000000000\<rparr>"

section \<open>Facts about strings and numerals\<close>

text \<open>
  \<open>decimal\<close> yields a non-empty string of digits whose value is the number it was given;
  a string of digits followed by a character that is not a digit splits at that character.
\<close>

lemma strip_prefix_Some: "strip_prefix p s = Some r \<longleftrightarrow> s = p @ r"
  by (induction p s rule: strip_prefix.induct) auto

lemma strip_prefix_append [simp]: "strip_prefix p (p @ r) = Some r"
  by (simp add: strip_prefix_Some)

lemma below_ten: "(m::nat) < 10 \<Longrightarrow> m \<in> {0, 1, 2, 3, 4, 5, 6, 7, 8, 9}"
  by auto

lemma is_digit_digit_char: "is_digit (digit_char n)"
proof -
  have "n mod 10 \<in> {0, 1, 2, 3, 4, 5, 6, 7, 8, 9}"
    by (rule below_ten) simp
  then show ?thesis
    unfolding is_digit_def digit_char_def by (elim insertE emptyE) simp_all
qed

lemma digit_value_digit_char: "digit_value (digit_char n) = n mod 10"
proof -
  have "n mod 10 \<in> {0, 1, 2, 3, 4, 5, 6, 7, 8, 9}"
    by (rule below_ten) simp
  then show ?thesis
    unfolding digit_value_def digit_char_def by (elim insertE emptyE) simp_all
qed

lemma decimal_digits: "list_all is_digit (decimal n)"
proof (induction n rule: decimal.induct)
  case (1 n)
  then show ?case
    by (subst decimal.simps) (simp add: is_digit_digit_char)
qed

lemma decimal_nonempty: "decimal n \<noteq> []"
  by (subst decimal.simps) simp

lemma digits_value_snoc: "digits_value (ds @ [c]) = 10 * digits_value ds + digit_value c"
  by (simp add: digits_value_def)

lemma digits_value_decimal: "digits_value (decimal n) = n"
proof (induction n rule: decimal.induct)
  case (1 n)
  show ?case
  proof (cases "n < 10")
    case True
    then show ?thesis
      by (subst decimal.simps) (simp add: digits_value_def digit_value_digit_char)
  next
    case False
    with 1 have "digits_value (decimal (n div 10)) = n div 10" by simp
    with False show ?thesis
      by (subst decimal.simps) (simp add: digits_value_snoc digit_value_digit_char)
  qed
qed

lemma decimal_small: "decimal 1 = ''1''" "decimal (Suc 0) = ''1''" "decimal 2 = ''2''"
  by (simp_all add: decimal.simps digit_char_def)

lemma takeWhile_digits: "list_all is_digit ds \<Longrightarrow> \<not> is_digit c \<Longrightarrow> takeWhile is_digit (ds @ c # t) = ds"
  by (induction ds) auto

lemma dropWhile_digits: "list_all is_digit ds \<Longrightarrow> \<not> is_digit c \<Longrightarrow> dropWhile is_digit (ds @ c # t) = c # t"
  by (induction ds) auto

lemma takeWhile_all: "list_all is_digit ds \<Longrightarrow> takeWhile is_digit ds = ds"
  by (induction ds) auto

lemma length_take_drop_digits:
  "length (takeWhile is_digit s) + length (dropWhile is_digit s) = length s"
  by (metis length_append takeWhile_dropWhile_id)

lemma not_digit_dot: "\<not> is_digit CHR ''.''" and not_digit_x: "\<not> is_digit CHR ''x''"
  by (simp_all add: is_digit_def)

subsection \<open>Numbers\<close>

text \<open>
  Below \<open>2^53\<close> the arithmetic of doubles is that of the integers: a digit string whose
  value is below \<open>2^53\<close> is read exactly, and its successor is computed and printed
  exactly, \<open>2^53\<close> itself included.
\<close>

lemma to_number_small: "v < 2 ^ 53 \<Longrightarrow> to_number v = Fin v"
proof -
  assume v: "v < 2 ^ 53"
  have "(2::nat) ^ 53 \<le> 2 ^ 1024" by (rule power_increasing) simp_all
  with v have "\<not> 2 ^ 1024 \<le> v" by linarith
  with v show ?thesis by (simp add: to_number_def round_even_def)
qed

lemma parseInt_digits:
  "ds \<noteq> [] \<Longrightarrow> list_all is_digit ds \<Longrightarrow> parseInt (Some ds) = to_number (digits_value ds)"
  by (simp add: parseInt_def takeWhile_all)

lemma successor_text:
  assumes "ds \<noteq> []" and "list_all is_digit ds" and "digits_value ds + 1 < 2 ^ 53"
  shows "Number_toString (plus_one (parseInt (Some ds))) = decimal (digits_value ds + 1)"
proof -
  from assms(3) have "digits_value ds < 2 ^ 53" by simp
  then have "parseInt (Some ds) = Fin (digits_value ds)"
    using assms(1,2) by (simp add: parseInt_digits to_number_small)
  then have "plus_one (parseInt (Some ds)) = Fin (digits_value ds + 1)"
    using assms(3) to_number_small [of "digits_value ds + 1"] by (simp add: plus_one_def)
  with assms(3) show ?thesis by (simp add: Number_toString_def)
qed

lemma decimal_2_53: "decimal 9007199254740992 = ''9007199254740992''"
  by (simp add: decimal.simps digit_char_def)

lemma to_number_2_53: "to_number 9007199254740992 = Fin 9007199254740992"
  by (simp add: to_number_def round_even_def bit_length.simps Let_def)

lemma to_number_2_53_1: "to_number 9007199254740993 = Fin 9007199254740992"
  by (simp add: to_number_def round_even_def bit_length.simps Let_def)

lemma toString_2_53: "Number_toString (Fin 9007199254740992) = ''9007199254740992''"
  by (simp add: Number_toString_def decimal_2_53 round_even_def bit_length.simps Let_def)

lemma successor_text_max:
  assumes "ds \<noteq> []" and "list_all is_digit ds" and "digits_value ds < 2 ^ 53"
  shows "Number_toString (plus_one (parseInt (Some ds))) = decimal (digits_value ds + 1)"
proof (cases "digits_value ds + 1 < 2 ^ 53")
  case True
  with assms(1,2) show ?thesis by (rule successor_text)
next
  case False
  with assms(3) have v: "digits_value ds = 9007199254740991" by simp
  then have "parseInt (Some ds) = Fin 9007199254740991"
    using assms(1,2) by (simp add: parseInt_digits to_number_small)
  then have "plus_one (parseInt (Some ds)) = Fin 9007199254740992"
    by (simp add: plus_one_def to_number_2_53)
  then show ?thesis
    by (simp add: v toString_2_53 decimal_2_53)
qed

section \<open>Facts about the matcher\<close>

text \<open>
  The states of a sequence of nodes are those of its parts, chained. A pattern that
  begins with \<open>^\<close> matches at index 0 or nowhere. A greedy run of digits, followed by a
  pattern that no digit can start, takes all the digits there are: this settles the tails
  \<open>(\\d+)\\.x$\<close> and \<open>(\\d+)\\.\\d+$\<close> of the two patterns.
\<close>

lemma concat_map_mts_Nil: "concat (map (mts []) l) = l"
  by (induction l) simp_all

lemma concat_map_compose:
  "(\<And>st. f st = concat (map g (h st))) \<Longrightarrow> concat (map f l) = concat (map g (concat (map h l)))"
  by (induction l) simp_all

lemma concat_map_member: "y \<in> set l \<Longrightarrow> x \<in> set (f y) \<Longrightarrow> x \<in> set (concat (map f l))"
  by auto

lemma mts_append: "mts (xs @ ys) st = concat (map (mts ys) (mts xs st))"
proof (induction xs arbitrary: st)
  case Nil
  show ?case by simp
next
  case (Cons n xs)
  show ?case
    using concat_map_compose [of "mts (xs @ ys)" "mts ys" "mts xs" "mt n st", OF Cons.IH]
    by simp
qed

lemma exec_from_Bol: "0 < p \<Longrightarrow> exec_from (Bol # r) p s = None"
  by (induction s arbitrary: p) (simp_all add: exec_from.simps)

lemma match_Bol:
  "match s (Bol # r) = (case mts r (0, None, s) of [] \<Rightarrow> None | st # _ \<Rightarrow> Some (fst (snd st)))"
  by (cases s) (simp_all add: match_def exec_from.simps [of _ 0] exec_from_Bol split: list.splits)

lemma star_digit_then:
  assumes "\<And>p d t. is_digit d \<Longrightarrow> F (p, d # t) = []"
  shows "concat (map F (star Digit p s)) =
         F (p + length (takeWhile is_digit s), dropWhile is_digit s)"
  using assms by (induction s arbitrary: p) simp_all

lemma cap_digits_then:
  assumes "\<And>p g d t. is_digit d \<Longrightarrow> F (p, g, d # t) = []"
  shows "concat (map F (mt (Cap [Atom Digit Plus]) (p, g, s))) =
         (if takeWhile is_digit s = [] then []
          else F (p + length (takeWhile is_digit s), Some (takeWhile is_digit s),
                  dropWhile is_digit s))"
proof (cases s)
  case Nil
  then show ?thesis by (simp add: concat_map_mts_Nil)
next
  case (Cons x xs)
  show ?thesis
  proof (cases "is_digit x")
    case False
    with Cons show ?thesis by (simp add: concat_map_mts_Nil)
  next
    case True
    define G where "G = (\<lambda>(p', s'). F (p', Some (take (p' - p) (x # xs)), s'))"
    have van: "\<And>p d t. is_digit d \<Longrightarrow> G (p, d # t) = []"
      by (simp add: G_def assms)
    have "concat (map F (mt (Cap [Atom Digit Plus]) (p, g, s))) =
          concat (map G (star Digit (Suc p) xs))"
      using Cons True
      by (simp add: concat_map_mts_Nil G_def comp_def case_prod_unfold)
    also have "\<dots> = G (Suc p + length (takeWhile is_digit xs), dropWhile is_digit xs)"
      by (rule star_digit_then) (rule van)
    also have "\<dots> = F (p + length (takeWhile is_digit s), Some (takeWhile is_digit s),
                        dropWhile is_digit s)"
      using Cons True by (simp add: G_def takeWhile_eq_take [symmetric])
    finally show ?thesis using Cons True by simp
  qed
qed

lemma develop_tail:
  "mts [Cap [Atom Digit Plus], Atom (Lit CHR ''.'') Once, Atom (Lit CHR ''x'') Once, Eol]
       (p, g, s) =
     (if takeWhile is_digit s \<noteq> [] \<and> dropWhile is_digit s = ''.x''
      then [(p + length s, Some (takeWhile is_digit s), [])] else [])"
proof -
  let ?F = "mts [Atom (Lit CHR ''.'') Once, Atom (Lit CHR ''x'') Once, Eol]"
  have van: "\<And>p g d t. is_digit d \<Longrightarrow> ?F (p, g, d # t) = []"
    using not_digit_dot by auto
  have F: "?F (q, h, t) = (if t = ''.x'' then [(q + 2, h, [])] else [])" for q h t
  proof (cases t)
    case Nil
    then show ?thesis by simp
  next
    case (Cons a u)
    then show ?thesis by (cases u) (auto simp: neq_Nil_conv)
  qed
  have "mts [Cap [Atom Digit Plus], Atom (Lit CHR ''.'') Once, Atom (Lit CHR ''x'') Once, Eol]
          (p, g, s) = concat (map ?F (mt (Cap [Atom Digit Plus]) (p, g, s)))"
    by (simp only: mts.simps)
  also have "\<dots> = (if takeWhile is_digit s = [] then []
        else ?F (p + length (takeWhile is_digit s), Some (takeWhile is_digit s),
                 dropWhile is_digit s))"
    by (rule cap_digits_then) (rule van)
  finally show ?thesis
    using length_take_drop_digits [of s] by (simp only: F) auto
qed

lemma plus_digit_eol:
  "mts [Atom Digit Plus, Eol] (p, g, s) =
     (if s \<noteq> [] \<and> list_all is_digit s then [(p + length s, g, [])] else [])"
proof (cases s)
  case Nil
  then show ?thesis by simp
next
  case (Cons x xs)
  define F where "F = (\<lambda>(q, t). if t = [] then [(q, g, t)] else ([] :: mstate list))"
  have van: "\<And>p d t. is_digit d \<Longrightarrow> F (p, d # t) = []"
    by (simp add: F_def)
  have all: "dropWhile is_digit xs = [] \<longleftrightarrow> list_all is_digit xs"
    by (simp add: list_all_iff)
  have len: "list_all is_digit xs \<Longrightarrow> length (takeWhile is_digit xs) = length xs"
    by (induction xs) auto
  show ?thesis
  proof (cases "is_digit x")
    case False
    with Cons show ?thesis by simp
  next
    case True
    have "mts [Atom Digit Plus, Eol] (p, g, s) = concat (map F (star Digit (Suc p) xs))"
      using Cons True
      by (simp add: concat_map_mts_Nil F_def comp_def case_prod_unfold)
    also have "\<dots> = F (Suc p + length (takeWhile is_digit xs), dropWhile is_digit xs)"
      by (rule star_digit_then) (rule van)
    finally show ?thesis
      using Cons True all len by (auto simp: F_def)
  qed
qed

lemma release_tail:
  "mts [Cap [Atom Digit Plus], Atom (Lit CHR ''.'') Once, Atom Digit Plus, Eol] (p, g, s) =
     (if takeWhile is_digit s \<noteq> [] \<and>
         (case dropWhile is_digit s of
            [] \<Rightarrow> False
          | c # m \<Rightarrow> c = CHR ''.'' \<and> m \<noteq> [] \<and> list_all is_digit m)
      then [(p + length s, Some (takeWhile is_digit s), [])] else [])"
proof -
  let ?F = "mts [Atom (Lit CHR ''.'') Once, Atom Digit Plus, Eol]"
  have van: "\<And>p g d t. is_digit d \<Longrightarrow> ?F (p, g, d # t) = []"
    using not_digit_dot by auto
  have F: "?F (q, h, t) =
      (case t of [] \<Rightarrow> []
       | c # m \<Rightarrow> if c = CHR ''.'' \<and> m \<noteq> [] \<and> list_all is_digit m
                  then [(q + length t, h, [])] else [])" for q h t
  proof (cases t)
    case Nil
    then show ?thesis by simp
  next
    case (Cons a u)
    have "?F (q, h, a # u) =
        (if a = CHR ''.'' then mts [Atom Digit Plus, Eol] (Suc q, h, u) else [])"
      by simp
    then show ?thesis unfolding Cons plus_digit_eol by auto
  qed
  have "mts [Cap [Atom Digit Plus], Atom (Lit CHR ''.'') Once, Atom Digit Plus, Eol]
          (p, g, s) = concat (map ?F (mt (Cap [Atom Digit Plus]) (p, g, s)))"
    by (simp only: mts.simps)
  also have "\<dots> = (if takeWhile is_digit s = [] then []
        else ?F (p + length (takeWhile is_digit s), Some (takeWhile is_digit s),
                 dropWhile is_digit s))"
    by (rule cap_digits_then) (rule van)
  finally have E:
    "mts [Cap [Atom Digit Plus], Atom (Lit CHR ''.'') Once, Atom Digit Plus, Eol] (p, g, s) =
       (if takeWhile is_digit s = [] then []
        else ?F (p + length (takeWhile is_digit s), Some (takeWhile is_digit s),
                 dropWhile is_digit s))" .
  show ?thesis
  proof (cases "dropWhile is_digit s")
    case Nil
    show ?thesis unfolding E F Nil by simp
  next
    case (Cons c m)
    with length_take_drop_digits [of s]
    have "length s = length (takeWhile is_digit s) + Suc (length m)" by simp
    then show ?thesis unfolding E F Cons by simp
  qed
qed

section \<open>The resolver on plain prefixes\<close>

text \<open>
  A prefix without syntax characters compiles to the sequence of its own characters,
  which matches that prefix and nothing else. The two patterns then match exactly the
  names of the two shapes of the specification, and the group holds the digits of \<open>N\<close>.
\<close>

lemma cls_of_plain: "\<not> syntax_char c \<Longrightarrow> cls_of c = Some (Lit c)"
  by (auto simp: cls_of_def syntax_char_def)

lemma quant_of_plain: "\<not> syntax_char c \<Longrightarrow> quant_of c = None"
  by (auto simp: quant_of_def syntax_char_def)

lemma compile_prefix_literal: "literal p \<Longrightarrow> compile_prefix p = Some (lits p)"
  by (induction p rule: compile_prefix.induct)
     (simp_all add: literal_def lits_def cls_of_plain quant_of_plain)

lemma mts_lits:
  "mts (lits p @ ns) (i, g, s) =
     (case strip_prefix p s of None \<Rightarrow> [] | Some r \<Rightarrow> mts ns (i + length p, g, r))"
proof (induction p arbitrary: i s)
  case Nil
  show ?case by (simp add: lits_def)
next
  case (Cons c p)
  show ?case
  proof (cases s)
    case Nil
    then show ?thesis by (simp add: lits_def)
  next
    case (Cons x xs)
    with Cons.IH [of "Suc i" xs] show ?thesis
      by (simp add: lits_def split: option.splits)
  qed
qed

text \<open>The two predicates on names say what the specification says.\<close>

lemma development_name_iff:
  "development_name pfx b \<longleftrightarrow>
     (\<exists>ds. ds \<noteq> [] \<and> list_all is_digit ds \<and> b = pfx @ ds @ ''.x'')"
proof
  assume "development_name pfx b"
  then obtain r where r: "b = pfx @ r" "takeWhile is_digit r \<noteq> []"
      "dropWhile is_digit r = ''.x''"
    by (auto simp: development_name_def strip_prefix_Some split: option.splits)
  have "r = takeWhile is_digit r @ dropWhile is_digit r" by simp
  with r have "b = pfx @ takeWhile is_digit r @ ''.x''" by simp
  moreover have "list_all is_digit (takeWhile is_digit r)"
    by (simp add: list_all_iff) (meson set_takeWhileD)
  ultimately show "\<exists>ds. ds \<noteq> [] \<and> list_all is_digit ds \<and> b = pfx @ ds @ ''.x''"
    using r(2) by blast
next
  assume "\<exists>ds. ds \<noteq> [] \<and> list_all is_digit ds \<and> b = pfx @ ds @ ''.x''"
  then obtain ds where ds: "ds \<noteq> []" "list_all is_digit ds" "b = pfx @ ds @ ''.x''"
    by blast
  from ds(2) have "takeWhile is_digit (ds @ ''.x'') = ds" "dropWhile is_digit (ds @ ''.x'') = ''.x''"
    using takeWhile_digits [of ds "CHR ''.''" "''x''"] dropWhile_digits [of ds "CHR ''.''" "''x''"]
      not_digit_dot by simp_all
  with ds show "development_name pfx b"
    by (simp add: development_name_def)
qed

lemma release_name_iff:
  "release_name pfx b \<longleftrightarrow>
     (\<exists>ds m. ds \<noteq> [] \<and> list_all is_digit ds \<and> m \<noteq> [] \<and> list_all is_digit m \<and>
             b = pfx @ ds @ ''.'' @ m)"
proof
  assume "release_name pfx b"
  then obtain r m where r: "b = pfx @ r" "takeWhile is_digit r \<noteq> []"
      "dropWhile is_digit r = CHR ''.'' # m" "m \<noteq> []" "list_all is_digit m"
    by (auto simp: release_name_def strip_prefix_Some split: option.splits list.splits)
  have "r = takeWhile is_digit r @ dropWhile is_digit r" by simp
  with r have "b = pfx @ takeWhile is_digit r @ ''.'' @ m" by simp
  moreover have "list_all is_digit (takeWhile is_digit r)"
    by (simp add: list_all_iff) (meson set_takeWhileD)
  ultimately show "\<exists>ds m. ds \<noteq> [] \<and> list_all is_digit ds \<and> m \<noteq> [] \<and> list_all is_digit m \<and>
             b = pfx @ ds @ ''.'' @ m"
    using r(2,4,5) by blast
next
  assume "\<exists>ds m. ds \<noteq> [] \<and> list_all is_digit ds \<and> m \<noteq> [] \<and> list_all is_digit m \<and>
             b = pfx @ ds @ ''.'' @ m"
  then obtain ds m where ds: "ds \<noteq> []" "list_all is_digit ds" "m \<noteq> []" "list_all is_digit m"
      "b = pfx @ ds @ ''.'' @ m"
    by blast
  from ds(2) have "takeWhile is_digit (ds @ ''.'' @ m) = ds"
      "dropWhile is_digit (ds @ ''.'' @ m) = CHR ''.'' # m"
    using takeWhile_digits [of ds "CHR ''.''" m] dropWhile_digits [of ds "CHR ''.''" m]
      not_digit_dot by simp_all
  with ds show "release_name pfx b"
    by (simp add: release_name_def)
qed

lemma load_literal:
  "literal pfx \<Longrightarrow>
   load pfx = Some \<lparr>branch_prefix = pfx,
     develop_branch_pattern =
       Bol # lits pfx @ [Cap [Atom Digit Plus], Atom (Lit CHR ''.'') Once,
                         Atom (Lit CHR ''x'') Once, Eol],
     release_branch_pattern =
       Bol # lits pfx @ [Cap [Atom Digit Plus], Atom (Lit CHR ''.'') Once,
                         Atom Digit Plus, Eol]\<rparr>"
  by (simp add: load_def compile_prefix_literal)

lemma develop_match:
  assumes "literal pfx" and "load pfx = Some K"
  shows "match b (develop_branch_pattern K) =
     (case strip_prefix pfx b of
        None \<Rightarrow> None
      | Some r \<Rightarrow> if takeWhile is_digit r \<noteq> [] \<and> dropWhile is_digit r = ''.x''
                  then Some (Some (takeWhile is_digit r)) else None)"
proof -
  from assms have "develop_branch_pattern K =
      Bol # lits pfx @ [Cap [Atom Digit Plus], Atom (Lit CHR ''.'') Once,
                        Atom (Lit CHR ''x'') Once, Eol]"
    using load_literal [of pfx] by auto
  then show ?thesis
    by (simp only: match_Bol mts_lits develop_tail) (simp split: option.splits)
qed

lemma release_match:
  assumes "literal pfx" and "load pfx = Some K"
  shows "match b (release_branch_pattern K) =
     (case strip_prefix pfx b of
        None \<Rightarrow> None
      | Some r \<Rightarrow>
          if takeWhile is_digit r \<noteq> [] \<and>
             (case dropWhile is_digit r of
                [] \<Rightarrow> False
              | c # m \<Rightarrow> c = CHR ''.'' \<and> m \<noteq> [] \<and> list_all is_digit m)
          then Some (Some (takeWhile is_digit r)) else None)"
proof -
  from assms have "release_branch_pattern K =
      Bol # lits pfx @ [Cap [Atom Digit Plus], Atom (Lit CHR ''.'') Once,
                        Atom Digit Plus, Eol]"
    using load_literal [of pfx] by auto
  then show ?thesis
    by (simp only: match_Bol mts_lits release_tail) (simp split: option.splits)
qed

lemma load_prefix: "load pfx = Some K \<Longrightarrow> branch_prefix K = pfx"
  by (auto simp: load_def)

lemma develop_match_None:
  "literal pfx \<Longrightarrow> load pfx = Some K \<Longrightarrow>
   match b (develop_branch_pattern K) = None \<longleftrightarrow> \<not> development_name pfx b"
  by (simp add: develop_match development_name_def split: option.splits)

lemma release_match_None:
  "literal pfx \<Longrightarrow> load pfx = Some K \<Longrightarrow>
   match b (release_branch_pattern K) = None \<longleftrightarrow> \<not> release_name pfx b"
  by (simp add: release_match release_name_def split: option.splits)

lemma flow_None_iff:
  "literal pfx \<Longrightarrow> load pfx = Some K \<Longrightarrow>
   flow K b = None \<longleftrightarrow> \<not> development_name pfx b \<and> \<not> release_name pfx b"
  using develop_match_None [of pfx K b] release_match_None [of pfx K b]
  by (auto simp: flow_def split: option.splits)

lemma resolve_literal:
  "literal pfx \<Longrightarrow> \<exists>K. load pfx = Some K \<and> resolve b pfx = Some (flow K b)"
  by (simp add: resolve_def load_literal)

lemma flow_development:
  assumes "literal pfx" and "load pfx = Some K" and "N < 2 ^ 53"
  shows "flow K (pfx @ decimal N @ ''.x'') = Some (pfx @ decimal (N + 1) @ ''.x'')"
proof -
  have t: "takeWhile is_digit (decimal N @ ''.x'') = decimal N"
    and d: "dropWhile is_digit (decimal N @ ''.x'') = ''.x''"
    using takeWhile_digits [OF decimal_digits not_digit_dot, of N "''x''"]
      dropWhile_digits [OF decimal_digits not_digit_dot, of N "''x''"] by simp_all
  have "match (pfx @ decimal N @ ''.x'') (develop_branch_pattern K) = Some (Some (decimal N))"
    using assms(1,2) by (simp add: develop_match t d decimal_nonempty)
  moreover have "Number_toString (plus_one (parseInt (Some (decimal N)))) = decimal (N + 1)"
    using successor_text_max [of "decimal N"] assms(3)
    by (simp add: decimal_nonempty decimal_digits digits_value_decimal)
  ultimately show ?thesis
    using assms(2) by (simp add: flow_def load_prefix)
qed

lemma flow_release:
  assumes "literal pfx" and "load pfx = Some K"
    and "ds \<noteq> []" and "list_all is_digit ds" and "m \<noteq> []" and "list_all is_digit m"
  shows "flow K (pfx @ ds @ ''.'' @ m) = Some (pfx @ ds @ ''.x'')"
proof -
  have t: "takeWhile is_digit (ds @ CHR ''.'' # m) = ds"
    and d: "dropWhile is_digit (ds @ CHR ''.'' # m) = CHR ''.'' # m"
    using takeWhile_digits [OF assms(4) not_digit_dot, of m]
      dropWhile_digits [OF assms(4) not_digit_dot, of m] by simp_all
  from assms(5,6) have "m \<noteq> ''x''"
    using not_digit_x by auto
  then have "match (pfx @ ds @ ''.'' @ m) (develop_branch_pattern K) = None"
    using assms(1,2) by (simp add: develop_match t d)
  moreover have "match (pfx @ ds @ ''.'' @ m) (release_branch_pattern K) = Some (Some ds)"
    using assms by (simp add: release_match t d)
  ultimately show ?thesis
    using assms(2) by (simp add: flow_def load_prefix group_text_def)
qed

lemma flow_Some_prefix:
  assumes "literal pfx" and "load pfx = Some K" and "flow K b = Some t"
  shows "strip_prefix pfx b \<noteq> None"
proof
  assume "strip_prefix pfx b = None"
  then have "\<not> development_name pfx b" "\<not> release_name pfx b"
    by (simp_all add: development_name_def release_name_def)
  with assms(1,2) have "flow K b = None" by (simp add: flow_None_iff)
  with assms(3) show False by simp
qed

lemma literal_examples: "literal ''''" "literal ''rhino-''"
  by (simp_all add: literal_def syntax_char_def)

section \<open>The resolver on pattern prefixes\<close>

text \<open>
  Every compiled prefix matches its sample, so the sample followed by \<open>1.x\<close> resolves to
  a target. When the prefix contains a syntax character, it is not a prefix of that name:
  they differ at the first syntax character.
\<close>

lemma cmatch_sample: "cmatch a (sample_char a)"
  by (cases a) (simp_all add: is_digit_def)

lemma star_self: "(p, s) \<in> set (star c p s)"
  by (cases s) simp_all

lemma atom_sample: "(Suc p, s) \<in> set (atom a q p (sample_char a # s))"
  by (cases q) (simp_all add: cmatch_sample star_self)

lemma mts_sample:
  "list_all plain_atom ns \<Longrightarrow>
   (p + length ns, g, s) \<in> set (mts ns (p, g, sample ns @ s))"
proof (induction ns arbitrary: p)
  case Nil
  show ?case by simp
next
  case (Cons n ns)
  from Cons.prems obtain a q where n: "n = Atom a q"
    by (auto simp: plain_atom_def split: node.splits)
  from Cons.prems have "list_all plain_atom ns" by simp
  then have "(Suc p + length ns, g, s) \<in> set (mts ns (Suc p, g, sample ns @ s))"
    by (rule Cons.IH)
  moreover have "(Suc p, g, sample ns @ s) \<in> set (mt n (p, g, sample (n # ns) @ s))"
    using atom_sample [of p "sample ns @ s" a q] by (force simp: n)
  ultimately show ?case by auto
qed

lemma cls_of_Some:
  "cls_of c = Some a \<Longrightarrow> (a = Dot \<and> c = CHR ''.'') \<or> (a = Lit c \<and> \<not> syntax_char c)"
  by (auto simp: cls_of_def split: if_splits)

lemma compile_prefix_plain: "compile_prefix p = Some ns \<Longrightarrow> list_all plain_atom ns"
proof (induction p arbitrary: ns rule: compile_prefix.induct)
  case 1
  then show ?case by simp
next
  case (2 c)
  then show ?case by (auto simp: plain_atom_def dest: cls_of_Some)
next
  case (3 c d r)
  from "3.prems" obtain a where a: "cls_of c = Some a"
    by (auto split: option.splits)
  from cls_of_Some [OF a] have pa: "plain_atom (Atom a q)" for q
    by (auto simp: plain_atom_def)
  show ?case
  proof (cases "quant_of d")
    case None
    with "3.prems" a obtain ms where ms: "compile_prefix (d # r) = Some ms"
      "ns = Atom a Once # ms" by auto
    from "3.IH"(1) [OF a None ms(1)] pa ms(2) show ?thesis by simp
  next
    case (Some q)
    with "3.prems" a obtain ms where ms: "compile_prefix r = Some ms"
      "ns = Atom a q # ms" by auto
    from "3.IH"(2) [OF a Some ms(1)] pa ms(2) show ?thesis by simp
  qed
qed

lemma sample_head:
  "list_all plain_atom ns \<Longrightarrow> \<exists>x t. sample ns @ ''1.x'' = x # t \<and> \<not> syntax_char x"
proof (cases ns)
  case Nil
  then show ?thesis by (simp add: syntax_char_def)
next
  case (Cons n ms)
  assume "list_all plain_atom ns"
  with Cons have "plain_atom n" by simp
  then show ?thesis
    using Cons
    by (auto simp: plain_atom_def syntax_char_def split: node.splits cls.splits)
qed

lemma quant_of_syntax: "quant_of d = Some q \<Longrightarrow> syntax_char d"
  by (auto simp: quant_of_def syntax_char_def split: if_splits)

lemma sample_not_prefixed:
  "compile_prefix p = Some ns \<Longrightarrow> \<not> literal p \<Longrightarrow>
   strip_prefix p (sample ns @ ''1.x'') = None"
proof (induction p arbitrary: ns rule: compile_prefix.induct)
  case 1
  then show ?case by (simp add: literal_def)
next
  case (2 c)
  then show ?case by (auto simp: literal_def dest!: cls_of_Some)
next
  case (3 c d r)
  from "3.prems"(1) obtain a where a: "cls_of c = Some a"
    by (auto split: option.splits)
  show ?case
  proof (cases "quant_of d")
    case None
    with "3.prems"(1) a obtain ms where ms: "compile_prefix (d # r) = Some ms"
      "ns = Atom a Once # ms" by auto
    show ?thesis
    proof (cases "syntax_char c")
      case True
      with cls_of_Some [OF a] ms(2) show ?thesis by auto
    next
      case False
      with "3.prems"(2) have "\<not> literal (d # r)" by (simp add: literal_def)
      from "3.IH"(1) [OF a None ms(1) this] cls_of_Some [OF a] ms(2) False
      show ?thesis by auto
    qed
  next
    case (Some q)
    with "3.prems"(1) a obtain ms where ms: "compile_prefix r = Some ms"
      "ns = Atom a q # ms" by auto
    from sample_head [OF compile_prefix_plain [OF ms(1)]]
    obtain x t where x: "sample ms @ ''1.x'' = x # t" "\<not> syntax_char x" by blast
    from quant_of_syntax [OF Some] x(2) have "d \<noteq> x" by auto
    with cls_of_Some [OF a] ms(2) x(1) show ?thesis by auto
  qed
qed

lemma sample_resolves:
  assumes "load pfx = Some K" and "compile_prefix pfx = Some ns"
  shows "flow K (sample ns @ ''1.x'') \<noteq> None"
proof -
  from assms have K: "develop_branch_pattern K =
      Bol # (ns @ [Cap [Atom Digit Plus], Atom (Lit CHR ''.'') Once,
                   Atom (Lit CHR ''x'') Once, Eol])"
    by (auto simp: load_def)
  let ?tail = "[Cap [Atom Digit Plus], Atom (Lit CHR ''.'') Once,
                Atom (Lit CHR ''x'') Once, Eol]"
  have "(0 + length ns, None, ''1.x'') \<in> set (mts ns (0, None, sample ns @ ''1.x''))"
    by (rule mts_sample) (rule compile_prefix_plain [OF assms(2)])
  moreover have "(0 + length ns + 3, Some ''1'', [])
      \<in> set (mts ?tail (0 + length ns, None, ''1.x''))"
    by (simp only: develop_tail) (simp add: is_digit_def)
  ultimately have "(0 + length ns + 3, Some ''1'', [])
      \<in> set (mts (ns @ ?tail) (0, None, sample ns @ ''1.x''))"
    unfolding mts_append by (rule concat_map_member)
  then have "mts (ns @ ?tail) (0, None, sample ns @ ''1.x'') \<noteq> []"
    by auto
  then have "match (sample ns @ ''1.x'') (develop_branch_pattern K) \<noteq> None"
    by (simp add: K match_Bol split: list.splits)
  then show ?thesis by (auto simp: flow_def split: option.splits)
qed

lemma pattern_prefix_leaks:
  assumes "load pfx = Some K" and "\<not> literal pfx"
  shows "\<exists>b t. flow K b = Some t \<and> strip_prefix pfx b = None"
proof -
  from assms(1) obtain ns where ns: "compile_prefix pfx = Some ns"
    by (auto simp: load_def)
  from sample_resolves [OF assms(1) ns] sample_not_prefixed [OF ns assms(2)]
  show ?thesis by blast
qed

section \<open>Evaluation at concrete inputs\<close>

text \<open>The equations that evaluate the resolver at a given name and prefix.\<close>

lemmas eval_defs = resolve_def load_def flow_def match_def exec_from.simps
  cls_of_def quant_of_def syntax_char_def is_digit_def parseInt_def plus_one_def
  to_number_def round_even_def Number_toString_def digits_value_def digit_value_def
  decimal.simps digit_char_def group_text_def bit_length.simps Let_def

lemma load_unprefixed: "load '''' = Some unprefixed"
  by (simp add: load_def unprefixed_def)

lemma flow_unprefixed:
  "flow unprefixed ''1.0'' = Some ''1.x''" "flow unprefixed ''1.x'' = Some ''2.x''"
  "flow unprefixed ''main'' = None"
  by (simp_all add: unprefixed_def eval_defs)

lemma load_rhino_prefixed: "load ''rhino-'' = Some rhino_prefixed"
  by (simp add: load_def rhino_prefixed_def lits_def cls_of_def quant_of_def syntax_char_def)

lemma flow_rhino_prefixed:
  "flow rhino_prefixed ''rhino-1.0'' = Some ''rhino-1.x''"
  "flow rhino_prefixed ''rhino-1.x'' = Some ''rhino-2.x''"
  by (simp_all add: rhino_prefixed_def lits_def eval_defs)

section \<open>Facts about runs\<close>

subsection \<open>Traces\<close>

text \<open>The readings of a trace go through concatenation.\<close>

lemma calls_append: "calls (a @ b) = calls a @ calls b"
  by (induction a rule: calls.induct) simp_all

lemma outcomes_append: "outcomes k (a @ b) = outcomes k a @ outcomes k b"
  by (simp add: outcomes_def calls_append)

lemma succeeded_append: "succeeded k (a @ b) = succeeded k a + succeeded k b"
  by (simp add: succeeded_def outcomes_append)

lemma failed_append: "failed (a @ b) \<longleftrightarrow> failed a \<or> failed b"
  by (simp add: failed_def)

lemma scan_append: "scan s a \<Longrightarrow> scan s (a @ b) = scan Idle b"
  by (induction s a rule: scan.induct) (auto split: entry.splits option.splits)

lemma caught_append: "caught a \<Longrightarrow> caught (a @ b) = caught b"
  by (simp add: caught_def scan_append)

lemma outcomes_requests: "outcomes kind tr = map snd (requests kind tr)"
  by (simp add: outcomes_def requests_def)

lemma failed_SetFailed: "failed [SetFailed e]" "\<not> failed [CoreWarning w]"
  by (simp_all add: failed_def)

subsection \<open>The steps\<close>

text \<open>
  For each step: the requests it sends, that it never calls \<open>core.setFailed\<close>, and that
  it handles every failure it does not throw.
\<close>

lemma intro_facts:
  "calls (intro pull t) = []" "caught (intro pull t)" "\<not> failed (intro pull t)"
  by (simp_all add: intro_def caught_def failed_def)

lemma cleanup_step_calls:
  "calls (cleanup_step pull env) =
     (if match (head_ref pull) cleanup_pattern \<noteq> None
      then [(DeleteRef (owner pull) (repo pull) (''heads/'' @ head_ref pull),
             thrown (on_deleteRef env))]
      else [])"
  by (simp add: cleanup_step_def Let_def split: sum.splits)

lemma cleanup_step_caught: "caught (cleanup_step pull env)"
  by (simp add: cleanup_step_def Let_def thrown_def caught_def split: sum.splits)

lemma cleanup_step_failed: "\<not> failed (cleanup_step pull env)"
  by (simp add: cleanup_step_def Let_def failed_def split: sum.splits)

lemma target_step_calls:
  "calls (fst (target_step pull env t)) =
     [(GetBranch (owner pull) (repo pull) t, thrown (on_getBranch env))]"
  by (simp add: target_step_def thrown_def split: sum.splits)

lemma target_step_caught: "caught (fst (target_step pull env t))"
  by (simp add: target_step_def caught_def split: sum.splits)

lemma target_step_failed: "\<not> failed (fst (target_step pull env t))"
  by (simp add: target_step_def failed_def split: sum.splits)

lemma target_step_snd: "snd (target_step pull env t) \<longleftrightarrow> thrown (on_getBranch env) = None"
  by (simp add: target_step_def thrown_def split: sum.splits)

lemma target_step_Inl:
  "on_getBranch env = Inl e \<Longrightarrow>
   target_step pull env t =
     ([Call (GetBranch (owner pull) (repo pull) t) (Some e), CoreError e,
       CoreWarning (''Skipping merge-down for non-existant branch: '' @ [CHR 0x27] @ t @
                    [CHR 0x27])], False)"
  by (simp add: target_step_def)

lemma target_step_Inr:
  "on_getBranch env = Inr u \<Longrightarrow>
   target_step pull env t = ([Call (GetBranch (owner pull) (repo pull) t) None], True)"
  by (simp add: target_step_def)

lemma create_step_calls:
  "calls (fst (create_step pull env t)) =
     (case on_createRef env of
        Inr _ \<Rightarrow> [(create_call pull (first_name pull t), None)]
      | Inl e \<Rightarrow> [(create_call pull (first_name pull t), Some e),
                  (create_call pull (retry_name pull env t), thrown (on_createRef_retry env))])"
  by (simp add: create_step_def Let_def thrown_def create_call_def first_name_def
      retry_name_def split: sum.splits)

lemma create_step_snd:
  "snd (create_step pull env t) =
     (case on_createRef env of
        Inr _ \<Rightarrow> Inr (first_name pull t)
      | Inl _ \<Rightarrow> (case on_createRef_retry env of
                    Inl e \<Rightarrow> Inl e
                  | Inr _ \<Rightarrow> Inr (retry_name pull env t)))"
  by (simp add: create_step_def Let_def first_name_def retry_name_def split: sum.splits)

lemma create_step_caught:
  "snd (create_step pull env t) = Inr nb \<Longrightarrow> caught (fst (create_step pull env t))"
  by (simp add: create_step_def Let_def thrown_def caught_def split: sum.splits)

lemma create_step_failed: "\<not> failed (fst (create_step pull env t))"
  by (simp add: create_step_def Let_def failed_def split: sum.splits)

lemma create_step_fatal:
  "snd (create_step pull env t) = Inl e \<Longrightarrow>
   \<exists>pre e1. fst (create_step pull env t) =
              pre @ [Call (create_call pull (retry_name pull env t)) (Some e)] \<and>
            caught pre \<and> on_createRef env = Inl e1 \<and> on_createRef_retry env = Inl e"
  by (auto simp: create_step_def Let_def thrown_def caught_def create_call_def retry_name_def
      split: sum.splits)

lemma merge_step_calls:
  "calls (fst (merge_step pull env t nb)) =
     [(MergeBranch (owner pull) (repo pull) nb t, thrown (on_merge env))]"
  by (simp add: merge_step_def Let_def thrown_def split: sum.splits)

lemma merge_step_snd: "snd (merge_step pull env t nb) \<longleftrightarrow> thrown (on_merge env) = None"
  by (simp add: merge_step_def Let_def thrown_def split: sum.splits)

lemma merge_step_caught: "caught (fst (merge_step pull env t nb))"
  by (simp add: merge_step_def Let_def thrown_def caught_def split: sum.splits)

lemma merge_step_failed: "\<not> failed (fst (merge_step pull env t nb))"
  by (simp add: merge_step_def Let_def failed_def split: sum.splits)

lemma pull_step_calls:
  "calls (fst (pull_step pull env t nb)) = [(pull_call pull t nb, thrown (on_pulls_create env))]"
  by (simp add: pull_step_def Let_def thrown_def pull_call_def split: sum.splits)

lemma pull_step_snd:
  "snd (pull_step pull env t nb) = on_pulls_create env"
  by (simp add: pull_step_def Let_def split: sum.splits)

lemma pull_step_Inl:
  "on_pulls_create env = Inl e \<Longrightarrow>
   pull_step pull env t nb =
     ([ConsoleLog (''Creating pull request to merge '' @ [CHR 0x27] @ nb @ [CHR 0x27] @
                   '' into '' @ t),
       Call (pull_call pull t nb) (Some e)], Inl e)"
  by (simp add: pull_step_def Let_def thrown_def pull_call_def)

lemma pull_step_Inr:
  "on_pulls_create env = Inr n \<Longrightarrow>
   snd (pull_step pull env t nb) = Inr n \<and> caught (fst (pull_step pull env t nb))"
  by (simp add: pull_step_def Let_def thrown_def caught_def)

lemma pull_step_failed: "\<not> failed (fst (pull_step pull env t nb))"
  by (simp add: pull_step_def Let_def failed_def split: sum.splits)

lemma automerge_step_calls:
  "calls (automerge_step pull env a n) =
     (if a then
        (case on_graphql_id env of
           Inl e \<Rightarrow> [(GraphqlPullRequestId (owner pull) (repo pull) n, Some e)]
         | Inr prid \<Rightarrow>
             [(GraphqlPullRequestId (owner pull) (repo pull) n, None),
              (GraphqlEnableAutoMerge prid ''MERGE'', thrown (on_graphql_enable env))])
      else [])"
  by (simp add: automerge_step_def enablePullRequestAutomerge_def thrown_def
      split: sum.splits)

lemma automerge_step_caught: "caught (automerge_step pull env a n)"
  by (simp add: automerge_step_def enablePullRequestAutomerge_def thrown_def caught_def
      split: sum.splits)

lemma automerge_step_failed: "\<not> failed (automerge_step pull env a n)"
  by (simp add: automerge_step_def enablePullRequestAutomerge_def failed_def
      split: sum.splits)

lemma automerge_step_skip:
  "automerge_step pull env False n =
     [CoreWarning ''Skipping auto-merge because there are merge conflicts'']"
  by (simp add: automerge_step_def)

lemma assign_step_calls:
  "calls (assign_step pull env n) =
     [(IssuesUpdate (owner pull) (repo pull) n [user_login pull],
       thrown (on_issues_update env))]"
  by (simp add: assign_step_def Let_def thrown_def split: sum.splits)

lemma assign_step_caught: "caught (assign_step pull env n)"
  by (simp add: assign_step_def Let_def thrown_def caught_def split: sum.splits)

lemma assign_step_failed: "\<not> failed (assign_step pull env n)"
  by (simp add: assign_step_def Let_def failed_def split: sum.splits)

subsection \<open>The paths of a run\<close>

text \<open>
  A run takes one of five paths: the base branch is not in the flow; the target branch is
  missing; both \<open>createRef\<close> calls fail; \<open>pulls.create\<close> fails; or it runs to the end.
\<close>

lemma run_unfold:
  "run K pull env =
     (case flow K (base_ref pull) of
        None \<Rightarrow>
          intro pull ''null'' @
          [CoreWarning (''Base branch is not a release or development branch: '' @
                        base_ref pull @ '' (branch-prefix: '' @ branch_prefix K @ '')'')]
      | Some t \<Rightarrow>
          intro pull t @ cleanup_step pull env @ fst (target_step pull env t) @
          (if \<not> snd (target_step pull env t) then []
           else fst (create_step pull env t) @
             (case snd (create_step pull env t) of
                Inl e \<Rightarrow> [SetFailed e]
              | Inr nb \<Rightarrow>
                  fst (merge_step pull env t nb) @ fst (pull_step pull env t nb) @
                  (case snd (pull_step pull env t nb) of
                     Inl e \<Rightarrow> [SetFailed e]
                   | Inr n \<Rightarrow>
                       automerge_step pull env (snd (merge_step pull env t nb)) n @
                       assign_step pull env n))))"
  by (simp add: run_def run_body_def intro_def Let_def
      split: option.splits prod.splits sum.splits bool.splits)

lemma run_paths [case_names not_in_flow no_target create_failed pull_failed complete]:
  obtains
    "flow K (base_ref pull) = None"
    "run K pull env =
       intro pull ''null'' @
       [CoreWarning (''Base branch is not a release or development branch: '' @
                     base_ref pull @ '' (branch-prefix: '' @ branch_prefix K @ '')'')]"
  | t e where
    "flow K (base_ref pull) = Some t" "on_getBranch env = Inl e"
    "run K pull env = intro pull t @ cleanup_step pull env @ fst (target_step pull env t)"
  | t e where
    "flow K (base_ref pull) = Some t" "thrown (on_getBranch env) = None"
    "snd (create_step pull env t) = Inl e"
    "run K pull env =
       intro pull t @ cleanup_step pull env @ fst (target_step pull env t) @
       fst (create_step pull env t) @ [SetFailed e]"
  | t nb e where
    "flow K (base_ref pull) = Some t" "thrown (on_getBranch env) = None"
    "snd (create_step pull env t) = Inr nb" "on_pulls_create env = Inl e"
    "run K pull env =
       intro pull t @ cleanup_step pull env @ fst (target_step pull env t) @
       fst (create_step pull env t) @ fst (merge_step pull env t nb) @
       fst (pull_step pull env t nb) @ [SetFailed e]"
  | t nb n where
    "flow K (base_ref pull) = Some t" "thrown (on_getBranch env) = None"
    "snd (create_step pull env t) = Inr nb" "on_pulls_create env = Inr n"
    "run K pull env =
       intro pull t @ cleanup_step pull env @ fst (target_step pull env t) @
       fst (create_step pull env t) @ fst (merge_step pull env t nb) @
       fst (pull_step pull env t nb) @
       automerge_step pull env (snd (merge_step pull env t nb)) n @ assign_step pull env n"
proof (cases "flow K (base_ref pull)")
  case None
  then show thesis
    using that(1) by (simp add: run_unfold)
next
  case (Some t)
  show thesis
  proof (cases "on_getBranch env")
    case (Inl e)
    with Some show thesis
      using that(2) [of t e] by (simp add: run_unfold target_step_Inl)
  next
    case (Inr u)
    then have g: "thrown (on_getBranch env) = None" by (simp add: thrown_def)
    show thesis
    proof (cases "snd (create_step pull env t)")
      case (Inl e)
      with Some g show thesis
        using that(3) [of t e] by (simp add: run_unfold target_step_snd)
    next
      case c: (Inr nb)
      show thesis
      proof (cases "on_pulls_create env")
        case (Inl e)
        with Some g c show thesis
          using that(4) [of t nb e] by (simp add: run_unfold target_step_snd pull_step_snd)
      next
        case p: (Inr n)
        with Some g c show thesis
          using that(5) [of t nb n] by (simp add: run_unfold target_step_snd pull_step_snd)
      qed
    qed
  qed
qed

subsection \<open>The requests of a run\<close>

text \<open>The requests of each kind that a run sends, from the answers of the service.\<close>

lemmas calls_simps = calls_append intro_facts(1) cleanup_step_calls target_step_calls
  create_step_calls merge_step_calls pull_step_calls automerge_step_calls assign_step_calls

lemmas failed_simps = failed_append intro_facts(3) cleanup_step_failed target_step_failed
  create_step_failed merge_step_failed pull_step_failed automerge_step_failed
  assign_step_failed

lemmas caught_simps = caught_append intro_facts(2) cleanup_step_caught target_step_caught
  create_step_caught merge_step_caught automerge_step_caught assign_step_caught

lemmas kind_simps = outcomes_def calls_simps create_call_def pull_call_def thrown_def

lemmas request_simps = requests_def calls_simps create_call_def pull_call_def thrown_def

lemma outcomes_CreateRef:
  "outcomes is_CreateRef (run K pull env) =
     (case flow K (base_ref pull) of
        None \<Rightarrow> []
      | Some t \<Rightarrow>
          if thrown (on_getBranch env) \<noteq> None then []
          else (case on_createRef env of
                  Inr _ \<Rightarrow> [None]
                | Inl e \<Rightarrow> [Some e, thrown (on_createRef_retry env)]))"
proof (cases rule: run_paths [of K pull env])
  case not_in_flow
  then show ?thesis by (simp add: outcomes_def calls_simps)
next
  case (no_target t e)
  then show ?thesis by (simp add: outcomes_def calls_simps thrown_def)
next
  case (create_failed t e)
  then show ?thesis
    by (simp add: outcomes_def calls_simps create_call_def split: sum.splits)
next
  case (pull_failed t nb e)
  then show ?thesis
    by (simp add: outcomes_def calls_simps create_call_def pull_call_def split: sum.splits)
next
  case (complete t nb n)
  then show ?thesis
    by (simp add: outcomes_def calls_simps create_call_def pull_call_def split: sum.splits)
qed

lemma outcomes_PullsCreate:
  "outcomes is_PullsCreate (run K pull env) =
     (case flow K (base_ref pull) of
        None \<Rightarrow> []
      | Some t \<Rightarrow>
          if thrown (on_getBranch env) \<noteq> None then []
          else (case snd (create_step pull env t) of
                  Inl e \<Rightarrow> []
                | Inr nb \<Rightarrow> [thrown (on_pulls_create env)]))"
proof (cases rule: run_paths [of K pull env])
  case not_in_flow
  then show ?thesis by (simp add: outcomes_def calls_simps)
next
  case (no_target t e)
  then show ?thesis by (simp add: outcomes_def calls_simps thrown_def)
next
  case (create_failed t e)
  then show ?thesis
    by (simp add: outcomes_def calls_simps create_call_def split: sum.splits)
next
  case (pull_failed t nb e)
  then show ?thesis
    by (simp add: outcomes_def calls_simps create_call_def pull_call_def split: sum.splits)
next
  case (complete t nb n)
  then show ?thesis
    by (simp add: outcomes_def calls_simps create_call_def pull_call_def split: sum.splits)
qed

lemma outcomes_GetBranch:
  "outcomes is_GetBranch (run K pull env) =
     (case flow K (base_ref pull) of None \<Rightarrow> [] | Some t \<Rightarrow> [thrown (on_getBranch env)])"
proof (cases rule: run_paths [of K pull env])
  case not_in_flow
  then show ?thesis by (simp add: kind_simps)
next
  case (no_target t e)
  then show ?thesis by (simp add: kind_simps)
next
  case (create_failed t e)
  then show ?thesis by (simp add: kind_simps split: sum.splits)
next
  case (pull_failed t nb e)
  then show ?thesis by (simp add: kind_simps split: sum.splits)
next
  case (complete t nb n)
  then show ?thesis by (simp add: kind_simps split: sum.splits)
qed

lemma outcomes_DeleteRef:
  "outcomes is_DeleteRef (run K pull env) =
     (case flow K (base_ref pull) of
        None \<Rightarrow> []
      | Some t \<Rightarrow> if match (head_ref pull) cleanup_pattern \<noteq> None
                  then [thrown (on_deleteRef env)] else [])"
proof (cases rule: run_paths [of K pull env])
  case not_in_flow
  then show ?thesis by (simp add: kind_simps)
next
  case (no_target t e)
  then show ?thesis by (simp add: kind_simps)
next
  case (create_failed t e)
  then show ?thesis by (simp add: kind_simps split: sum.splits)
next
  case (pull_failed t nb e)
  then show ?thesis by (simp add: kind_simps split: sum.splits)
next
  case (complete t nb n)
  then show ?thesis by (simp add: kind_simps split: sum.splits)
qed

lemma outcomes_MergeBranch:
  "outcomes is_MergeBranch (run K pull env) =
     (case flow K (base_ref pull) of
        None \<Rightarrow> []
      | Some t \<Rightarrow>
          if thrown (on_getBranch env) \<noteq> None then []
          else (case snd (create_step pull env t) of
                  Inl e \<Rightarrow> []
                | Inr nb \<Rightarrow> [thrown (on_merge env)]))"
proof (cases rule: run_paths [of K pull env])
  case not_in_flow
  then show ?thesis by (simp add: kind_simps)
next
  case (no_target t e)
  then show ?thesis by (simp add: kind_simps)
next
  case (create_failed t e)
  then show ?thesis by (simp add: kind_simps split: sum.splits)
next
  case (pull_failed t nb e)
  then show ?thesis by (simp add: kind_simps split: sum.splits)
next
  case (complete t nb n)
  then show ?thesis by (simp add: kind_simps split: sum.splits)
qed

lemma outcomes_IssuesUpdate_raw:
  "outcomes is_IssuesUpdate (run K pull env) =
     (case flow K (base_ref pull) of
        None \<Rightarrow> []
      | Some t \<Rightarrow>
          if thrown (on_getBranch env) \<noteq> None then []
          else (case snd (create_step pull env t) of
                  Inl e \<Rightarrow> []
                | Inr nb \<Rightarrow>
                    (case on_pulls_create env of
                       Inl e \<Rightarrow> []
                     | Inr n \<Rightarrow> [thrown (on_issues_update env)])))"
proof (cases rule: run_paths [of K pull env])
  case not_in_flow
  then show ?thesis by (simp add: kind_simps)
next
  case (no_target t e)
  then show ?thesis by (simp add: kind_simps)
next
  case (create_failed t e)
  then show ?thesis by (simp add: kind_simps split: sum.splits)
next
  case (pull_failed t nb e)
  then show ?thesis by (simp add: kind_simps split: sum.splits)
next
  case (complete t nb n)
  then show ?thesis by (simp add: kind_simps split: sum.splits)
qed

lemma outcomes_IssuesUpdate:
  "outcomes is_IssuesUpdate (run K pull env) =
     (if outcomes is_PullsCreate (run K pull env) = [None]
      then [thrown (on_issues_update env)] else [])"
  by (simp add: outcomes_IssuesUpdate_raw outcomes_PullsCreate thrown_def
      split: option.splits sum.splits)

lemma outcomes_Graphql_raw:
  "outcomes is_Graphql (run K pull env) =
     (case flow K (base_ref pull) of
        None \<Rightarrow> []
      | Some t \<Rightarrow>
          if thrown (on_getBranch env) \<noteq> None then []
          else (case snd (create_step pull env t) of
                  Inl e \<Rightarrow> []
                | Inr nb \<Rightarrow>
                    (case on_pulls_create env of
                       Inl e \<Rightarrow> []
                     | Inr n \<Rightarrow>
                         if thrown (on_merge env) \<noteq> None then []
                         else (case on_graphql_id env of
                                 Inl e \<Rightarrow> [Some e]
                               | Inr prid \<Rightarrow> [None, thrown (on_graphql_enable env)]))))"
proof (cases rule: run_paths [of K pull env])
  case not_in_flow
  then show ?thesis by (simp add: kind_simps)
next
  case (no_target t e)
  then show ?thesis by (simp add: kind_simps)
next
  case (create_failed t e)
  then show ?thesis by (simp add: kind_simps split: sum.splits)
next
  case (pull_failed t nb e)
  then show ?thesis by (simp add: kind_simps split: sum.splits)
next
  case (complete t nb n)
  then show ?thesis by (simp add: kind_simps merge_step_snd split: sum.splits)
qed

lemma outcomes_Graphql:
  "outcomes is_Graphql (run K pull env) =
     (if outcomes is_PullsCreate (run K pull env) = [None] \<and>
         outcomes is_MergeBranch (run K pull env) = [None]
      then (case on_graphql_id env of
              Inl e \<Rightarrow> [Some e]
            | Inr prid \<Rightarrow> [None, thrown (on_graphql_enable env)])
      else [])"
  by (simp add: outcomes_Graphql_raw outcomes_PullsCreate outcomes_MergeBranch thrown_def
      split: option.splits sum.splits)

lemma requests_CreateRef:
  "requests is_CreateRef (run K pull env) =
     (case flow K (base_ref pull) of
        None \<Rightarrow> []
      | Some t \<Rightarrow>
          if thrown (on_getBranch env) \<noteq> None then []
          else (case on_createRef env of
                  Inr _ \<Rightarrow> [(create_call pull (first_name pull t), None)]
                | Inl e \<Rightarrow>
                    [(create_call pull (first_name pull t), Some e),
                     (create_call pull (retry_name pull env t),
                      thrown (on_createRef_retry env))]))"
proof (cases rule: run_paths [of K pull env])
  case not_in_flow
  then show ?thesis by (simp add: request_simps)
next
  case (no_target t e)
  then show ?thesis by (simp add: request_simps)
next
  case (create_failed t e)
  then show ?thesis by (simp add: request_simps split: sum.splits)
next
  case (pull_failed t nb e)
  then show ?thesis by (simp add: request_simps split: sum.splits)
next
  case (complete t nb n)
  then show ?thesis by (simp add: request_simps split: sum.splits)
qed

lemma requests_PullsCreate:
  "requests is_PullsCreate (run K pull env) =
     (case flow K (base_ref pull) of
        None \<Rightarrow> []
      | Some t \<Rightarrow>
          if thrown (on_getBranch env) \<noteq> None then []
          else (case snd (create_step pull env t) of
                  Inl e \<Rightarrow> []
                | Inr nb \<Rightarrow> [(pull_call pull t nb, thrown (on_pulls_create env))]))"
proof (cases rule: run_paths [of K pull env])
  case not_in_flow
  then show ?thesis by (simp add: request_simps)
next
  case (no_target t e)
  then show ?thesis by (simp add: request_simps)
next
  case (create_failed t e)
  then show ?thesis by (simp add: request_simps split: sum.splits)
next
  case (pull_failed t nb e)
  then show ?thesis by (simp add: request_simps split: sum.splits)
next
  case (complete t nb n)
  then show ?thesis by (simp add: request_simps split: sum.splits)
qed

subsection \<open>The exit status\<close>

text \<open>When a run is failed, and what its trace looks like then.\<close>

lemma failed_run:
  "failed (run K pull env) \<longleftrightarrow>
     (case flow K (base_ref pull) of
        None \<Rightarrow> False
      | Some t \<Rightarrow>
          thrown (on_getBranch env) = None \<and>
          (case snd (create_step pull env t) of
             Inl e \<Rightarrow> True
           | Inr nb \<Rightarrow> thrown (on_pulls_create env) \<noteq> None))"
proof (cases rule: run_paths [of K pull env])
  case not_in_flow
  then show ?thesis by (simp add: failed_simps failed_SetFailed)
next
  case (no_target t e)
  then show ?thesis by (simp add: failed_simps thrown_def)
next
  case (create_failed t e)
  then show ?thesis by (simp add: failed_simps failed_SetFailed)
next
  case (pull_failed t nb e)
  then show ?thesis by (simp add: failed_simps failed_SetFailed thrown_def)
next
  case (complete t nb n)
  then show ?thesis by (simp add: failed_simps thrown_def)
qed

lemma failed_iff:
  "failed (run K pull env) \<longleftrightarrow>
     (\<exists>r e. outcomes is_CreateRef (run K pull env) = [r, Some e]) \<or>
     (\<exists>e. outcomes is_PullsCreate (run K pull env) = [Some e])"
  unfolding failed_run outcomes_CreateRef outcomes_PullsCreate
  by (auto simp: create_step_snd thrown_def split: option.splits sum.splits)

lemma caught_run: "\<not> failed (run K pull env) \<Longrightarrow> caught (run K pull env)"
proof (cases rule: run_paths [of K pull env])
  case not_in_flow
  then show ?thesis by (simp add: intro_def caught_def)
next
  case (no_target t e)
  then show ?thesis by (simp add: caught_simps)
next
  case (create_failed t e)
  moreover assume "\<not> failed (run K pull env)"
  ultimately show ?thesis by (simp add: failed_simps failed_SetFailed)
next
  case (pull_failed t nb e)
  moreover assume "\<not> failed (run K pull env)"
  ultimately show ?thesis by (simp add: failed_simps failed_SetFailed)
next
  case (complete t nb n)
  then show ?thesis by (simp add: caught_simps pull_step_Inr)
qed

lemma fatal_run:
  assumes "failed (run K pull env)"
  shows "\<exists>pre c e. run K pull env = pre @ [Call c (Some e), SetFailed e] \<and> caught pre \<and>
           (is_CreateRef c \<or> is_PullsCreate c)"
proof (cases rule: run_paths [of K pull env])
  case not_in_flow
  with assms show ?thesis by (simp add: failed_simps failed_SetFailed)
next
  case (no_target t e)
  with assms show ?thesis by (simp add: failed_simps)
next
  case (create_failed t e)
  from create_step_fatal [OF create_failed(3)]
  obtain pre where pre: "fst (create_step pull env t) =
      pre @ [Call (create_call pull (retry_name pull env t)) (Some e)]" "caught pre"
    by blast
  let ?pre = "intro pull t @ cleanup_step pull env @ fst (target_step pull env t) @ pre"
  have "run K pull env =
      ?pre @ [Call (create_call pull (retry_name pull env t)) (Some e), SetFailed e]"
    using create_failed(4) pre(1) by simp
  moreover have "caught ?pre" using pre(2) by (simp add: caught_simps)
  moreover have "is_CreateRef (create_call pull (retry_name pull env t))"
    by (simp add: create_call_def)
  ultimately show ?thesis by blast
next
  case (pull_failed t nb e)
  let ?pre = "intro pull t @ cleanup_step pull env @ fst (target_step pull env t) @
      fst (create_step pull env t) @ fst (merge_step pull env t nb) @
      [ConsoleLog (''Creating pull request to merge '' @ [CHR 0x27] @ nb @ [CHR 0x27] @
                   '' into '' @ t)]"
  have "run K pull env = ?pre @ [Call (pull_call pull t nb) (Some e), SetFailed e]"
    using pull_failed(5) pull_step_Inl [OF pull_failed(4), of pull t nb] by simp
  moreover have "caught ?pre"
    using pull_failed(3) by (simp add: caught_simps) (simp add: caught_def)
  moreover have "is_PullsCreate (pull_call pull t nb)"
    by (simp add: pull_call_def)
  ultimately show ?thesis by blast
next
  case (complete t nb n)
  with assms show ?thesis by (simp add: failed_simps)
qed

lemma retry_fatal:
  assumes "flow K (base_ref pull) = Some t" and "thrown (on_getBranch env) = None"
    and "on_createRef env = Inl e1" and "on_createRef_retry env = Inl e2"
  shows "\<exists>pre. run K pull env =
           pre @ [Call (create_call pull (retry_name pull env t)) (Some e2), SetFailed e2]"
proof -
  from assms(3,4) have s: "snd (create_step pull env t) = Inl e2"
    by (simp add: create_step_snd)
  from create_step_fatal [OF s]
  obtain pre where pre: "fst (create_step pull env t) =
      pre @ [Call (create_call pull (retry_name pull env t)) (Some e2)]"
    by blast
  have "run K pull env =
      (intro pull t @ cleanup_step pull env @ fst (target_step pull env t) @ pre) @
      [Call (create_call pull (retry_name pull env t)) (Some e2), SetFailed e2]"
    using assms(1,2) s pre by (simp add: run_unfold target_step_snd)
  then show ?thesis by blast
qed

lemma skip_warning:
  assumes "outcomes is_PullsCreate (run K pull env) = [None]"
    and "outcomes is_MergeBranch (run K pull env) = [Some e]"
  shows "CoreWarning ''Skipping auto-merge because there are merge conflicts''
           \<in> set (run K pull env)"
proof (cases rule: run_paths [of K pull env])
  case not_in_flow
  from assms(1) not_in_flow(1) show ?thesis by (simp add: outcomes_PullsCreate)
next
  case (no_target t e')
  from assms(1) no_target(1,2) show ?thesis by (simp add: outcomes_PullsCreate thrown_def)
next
  case (create_failed t e')
  from assms(1) create_failed(1,2,3) show ?thesis by (simp add: outcomes_PullsCreate)
next
  case (pull_failed t nb e')
  from assms(1) pull_failed(1,2,3,4) show ?thesis
    by (simp add: outcomes_PullsCreate thrown_def)
next
  case (complete t nb n)
  from assms(2) complete(1,2,3) have "thrown (on_merge env) = Some e"
    by (simp add: outcomes_MergeBranch)
  then have "\<not> snd (merge_step pull env t nb)" by (simp add: merge_step_snd)
  then show ?thesis
    using complete(5) by (simp add: automerge_step_skip)
qed

lemmas run_eval = failed_run outcomes_CreateRef outcomes_PullsCreate outcomes_GetBranch
  outcomes_DeleteRef outcomes_MergeBranch outcomes_IssuesUpdate_raw outcomes_Graphql_raw
  create_step_snd all_ok_def example_pull_def flow_unprefixed thrown_def succeeded_def

section \<open>The claims about the resolver\<close>

text \<open>
  Claim C3, as amended. For every prefix without a syntax character of the pattern
  language and every \<open>N\<close> below \<open>2^53\<close>, resolving the development branch
  \<open><prefix><N>.x\<close> returns \<open><prefix><N+1>.x\<close>.
\<close>

theorem resolve_development:
  "literal pfx \<Longrightarrow> N < 2 ^ 53 \<Longrightarrow>
   resolve (pfx @ decimal N @ ''.x'') pfx = Some (Some (pfx @ decimal (N + 1) @ ''.x''))"
proof -
  assume l: "literal pfx" and n: "N < 2 ^ 53"
  from resolve_literal [OF l, of "pfx @ decimal N @ ''.x''"]
  obtain K where K: "load pfx = Some K"
    "resolve (pfx @ decimal N @ ''.x'') pfx = Some (flow K (pfx @ decimal N @ ''.x''))"
    by blast
  from flow_development [OF l K(1) n] K(2) show ?thesis by simp
qed

text \<open>The theorem at the prefixes \<open>rhino-\<close> and the empty one, with \<open>N = 1\<close>.\<close>

theorem resolve_development_witness:
  "literal ''rhino-'' \<and> (1::nat) < 2 ^ 53 \<and> literal '''' \<and>
   resolve ''rhino-1.x'' ''rhino-'' = Some (Some ''rhino-2.x'') \<and>
   resolve ''1.x'' '''' = Some (Some ''2.x'')"
proof -
  have l: "literal ''rhino-''" "literal ''''"
    by (simp_all add: literal_def syntax_char_def)
  have n: "(1::nat) < 2 ^ 53" by simp
  have d: "decimal 1 = ''1''" "decimal (1 + 1) = ''2''"
    by (simp_all add: decimal.simps digit_char_def)
  from resolve_development [OF l(1) n] resolve_development [OF l(2) n] l n d
  show ?thesis by simp
qed

text \<open>
  Claim C3 as stated fails in two ways. At \<open>N = 2^53\<close> the sum \<open>parseInt(m[1]) + 1\<close> is
  rounded back to \<open>2^53\<close>, so the branch \<open>9007199254740992.x\<close> resolves to itself and not
  to \<open>9007199254740993.x\<close>. With the prefix \<open>v+\<close> the name \<open>v+1.x\<close> does not match the
  pattern \<open>^v+(\\d+)\\.x$\<close>, and the resolver returns \<open>null\<close> and not \<open>v+2.x\<close>.
\<close>

theorem resolve_development_counterexample:
  "resolve ('''' @ decimal 9007199254740992 @ ''.x'') '''' = Some (Some ''9007199254740992.x'') \<and>
   '''' @ decimal (9007199254740992 + 1) @ ''.x'' = ''9007199254740993.x'' \<and>
   resolve (''v+'' @ decimal 1 @ ''.x'') ''v+'' = Some None \<and>
   ''v+'' @ decimal (1 + 1) @ ''.x'' = ''v+2.x''"
proof (intro conjI)
  have m: "match ''9007199254740992.x'' (the (map_option develop_branch_pattern (load ''''))) =
      Some (Some ''9007199254740992'')"
    by (simp add: load_def match_def exec_from.simps is_digit_def)
  have p: "parseInt (Some ''9007199254740992'') = Fin 9007199254740992"
    by (simp add: parseInt_def is_digit_def digits_value_def digit_value_def to_number_2_53)
  have q: "plus_one (Fin 9007199254740992) = Fin 9007199254740992"
    by (simp add: plus_one_def to_number_2_53_1)
  have "resolve ''9007199254740992.x'' '''' = Some (Some ''9007199254740992.x'')"
    using m by (simp add: resolve_def load_def flow_def p q toString_2_53)
  then show "resolve ('''' @ decimal 9007199254740992 @ ''.x'') '''' =
      Some (Some ''9007199254740992.x'')"
    by (simp add: decimal_2_53)
  show "'''' @ decimal (9007199254740992 + 1) @ ''.x'' = ''9007199254740993.x''"
    by (simp add: decimal.simps digit_char_def)
  show "resolve (''v+'' @ decimal 1 @ ''.x'') ''v+'' = Some None"
    by (simp add: eval_defs)
  show "''v+'' @ decimal (1 + 1) @ ''.x'' = ''v+2.x''"
    by (simp add: decimal.simps digit_char_def)
qed

text \<open>
  Claim C4, as amended. For every prefix without a syntax character of the pattern
  language, every non-negative integer \<open>N\<close> and every non-empty digit sequence \<open>M\<close>,
  resolving the release branch \<open><prefix><N>.<M>\<close> returns \<open><prefix><N>.x\<close>.
\<close>

theorem resolve_release:
  "literal pfx \<Longrightarrow> m \<noteq> [] \<Longrightarrow> list_all is_digit m \<Longrightarrow>
   resolve (pfx @ decimal N @ ''.'' @ m) pfx = Some (Some (pfx @ decimal N @ ''.x''))"
proof -
  assume l: "literal pfx" and m: "m \<noteq> []" "list_all is_digit m"
  from resolve_literal [OF l, of "pfx @ decimal N @ ''.'' @ m"]
  obtain K where K: "load pfx = Some K"
    "resolve (pfx @ decimal N @ ''.'' @ m) pfx = Some (flow K (pfx @ decimal N @ ''.'' @ m))"
    by blast
  from flow_release [OF l K(1) decimal_nonempty decimal_digits m] K(2)
  show ?thesis by simp
qed

text \<open>The theorem at the two examples of the claim, \<open>1.0\<close> and \<open>rhino-2.3\<close>.\<close>

theorem resolve_release_witness:
  "literal '''' \<and> ''0'' \<noteq> [] \<and> list_all is_digit ''0'' \<and> literal ''rhino-'' \<and>
   ''3'' \<noteq> [] \<and> list_all is_digit ''3'' \<and>
   resolve ''1.0'' '''' = Some (Some ''1.x'') \<and>
   resolve ''rhino-2.3'' ''rhino-'' = Some (Some ''rhino-2.x'')"
proof -
  have d: "list_all is_digit ''0''" "list_all is_digit ''3''"
    by (simp_all add: is_digit_def)
  have n: "''0'' \<noteq> []" "''3'' \<noteq> []" by simp_all
  from resolve_release [OF literal_examples(1) n(1) d(1), of 1]
    resolve_release [OF literal_examples(2) n(2) d(2), of 2]
    literal_examples d
  show ?thesis by (simp add: decimal_small)
qed

text \<open>
  Claim C4 as stated fails for the prefix \<open>v+\<close>: the name \<open>v+1.0\<close> does not match
  \<open>^v+(\\d+)\\.\\d+$\<close>, and the resolver returns \<open>null\<close> and not \<open>v+1.x\<close>. It also fails
  for the empty digit sequence: \<open>1.\<close> resolves to \<open>null\<close>.
\<close>

theorem resolve_release_counterexample:
  "resolve (''v+'' @ decimal 1 @ ''.'' @ ''0'') ''v+'' = Some None \<and>
   ''v+'' @ decimal 1 @ ''.x'' = ''v+1.x'' \<and>
   resolve ('''' @ decimal 1 @ ''.'' @ []) '''' = Some None"
proof (intro conjI)
  show "resolve (''v+'' @ decimal 1 @ ''.'' @ ''0'') ''v+'' = Some None"
    by (simp add: eval_defs)
  show "''v+'' @ decimal 1 @ ''.x'' = ''v+1.x''"
    by (simp add: decimal.simps digit_char_def)
  show "resolve ('''' @ decimal 1 @ ''.'' @ []) '''' = Some None"
    by (simp add: eval_defs)
qed

text \<open>
  Claim C8, as amended. For every prefix without a syntax character of the pattern
  language, a branch name that is neither a development name nor a release name of the
  specification resolves to \<open>null\<close>; so do \<open>main\<close> and \<open>1.x.y\<close> under the empty prefix,
  and \<open>1.x\<close> under the prefix \<open>rhino-\<close>.
\<close>

theorem resolve_none:
  "(\<forall>pfx b. literal pfx \<and> \<not> development_name pfx b \<and> \<not> release_name pfx b \<longrightarrow>
            resolve b pfx = Some None) \<and>
   resolve ''main'' '''' = Some None \<and>
   resolve ''1.x.y'' '''' = Some None \<and>
   resolve ''1.x'' ''rhino-'' = Some None"
proof -
  have g: "resolve b pfx = Some None"
    if "literal pfx" "\<not> development_name pfx b" "\<not> release_name pfx b" for pfx b
  proof -
    from resolve_literal [OF that(1), of b]
    obtain K where K: "load pfx = Some K" "resolve b pfx = Some (flow K b)" by blast
    from that K(1) have "flow K b = None" by (simp add: flow_None_iff)
    with K(2) show ?thesis by simp
  qed
  have "resolve ''main'' '''' = Some None"
    by (rule g) (simp_all add: literal_examples development_name_def release_name_def
        is_digit_def)
  moreover have "resolve ''1.x.y'' '''' = Some None"
    by (rule g) (simp_all add: literal_examples development_name_def release_name_def
        is_digit_def)
  moreover have "resolve ''1.x'' ''rhino-'' = Some None"
    by (rule g) (simp_all add: literal_examples development_name_def release_name_def
        is_digit_def)
  ultimately show ?thesis using g by blast
qed

text \<open>The theorem at \<open>main\<close> under the empty prefix and at \<open>1.x\<close> under \<open>rhino-\<close>.\<close>

theorem resolve_none_witness:
  "literal '''' \<and> \<not> development_name '''' ''main'' \<and> \<not> release_name '''' ''main'' \<and>
   resolve ''main'' '''' = Some None \<and>
   literal ''rhino-'' \<and> \<not> development_name ''rhino-'' ''1.x'' \<and>
   \<not> release_name ''rhino-'' ''1.x'' \<and> resolve ''1.x'' ''rhino-'' = Some None"
  using resolve_none literal_examples
  by (simp add: development_name_def release_name_def is_digit_def)

text \<open>
  Claim C8 as stated fails for the prefix \<open>1.\<close>: the name \<open>1X2.x\<close> is neither
  \<open>1.<N>.x\<close> nor \<open>1.<N>.<M>\<close>, and the resolver returns \<open>1.3.x\<close> for it.
\<close>

theorem resolve_none_counterexample:
  "\<not> development_name ''1.'' ''1X2.x'' \<and> \<not> release_name ''1.'' ''1X2.x'' \<and>
   resolve ''1X2.x'' ''1.'' = Some (Some ''1.3.x'')"
proof (intro conjI)
  show "\<not> development_name ''1.'' ''1X2.x''" by (simp add: development_name_def)
  show "\<not> release_name ''1.'' ''1X2.x''" by (simp add: release_name_def)
  show "resolve ''1X2.x'' ''1.'' = Some (Some ''1.3.x'')" by (simp add: eval_defs)
qed

text \<open>
  Claim C10. The prefix is read as a pattern. Under the prefix \<open>1.\<close>, which contains the
  syntax character \<open>.\<close>, the name \<open>1X2.x\<close> does not begin with the prefix and resolves to
  \<open>1.3.x\<close>. For a prefix without syntax characters the match is literal: a name that
  resolves to a target begins with the prefix. And only for those: every prefix of the
  fragment that does contain a syntax character resolves some name that does not begin
  with it.
\<close>

theorem prefix_is_a_pattern:
  "(\<not> literal ''1.'' \<and> strip_prefix ''1.'' ''1X2.x'' = None \<and>
    resolve ''1X2.x'' ''1.'' = Some (Some ''1.3.x'')) \<and>
   (\<forall>pfx b t. literal pfx \<and> resolve b pfx = Some (Some t) \<longrightarrow> strip_prefix pfx b \<noteq> None) \<and>
   (\<forall>pfx. load pfx \<noteq> None \<and> \<not> literal pfx \<longrightarrow>
      (\<exists>b t. resolve b pfx = Some (Some t) \<and> strip_prefix pfx b = None))"
proof (intro conjI allI impI)
  show "\<not> literal ''1.''" by (simp add: literal_def syntax_char_def)
  show "strip_prefix ''1.'' ''1X2.x'' = None" by simp
  show "resolve ''1X2.x'' ''1.'' = Some (Some ''1.3.x'')" by (simp add: eval_defs)
next
  fix pfx b t
  assume a: "literal pfx \<and> resolve b pfx = Some (Some t)"
  with resolve_literal [of pfx b]
  obtain K where K: "load pfx = Some K" "flow K b = Some t" by auto
  from a K show "strip_prefix pfx b \<noteq> None"
    using flow_Some_prefix [of pfx K b t] by blast
next
  fix pfx
  assume a: "load pfx \<noteq> None \<and> \<not> literal pfx"
  then obtain K where K: "load pfx = Some K" by auto
  from pattern_prefix_leaks [OF K] a
  obtain b t where "flow K b = Some t" "strip_prefix pfx b = None" by blast
  with K show "\<exists>b t. resolve b pfx = Some (Some t) \<and> strip_prefix pfx b = None"
    by (auto simp: resolve_def)
qed

text \<open>
  The literal half of the theorem at \<open>rhino-2.3\<close> under the prefix \<open>rhino-\<close>, and the
  other half at the prefix \<open>v+\<close>.
\<close>

theorem prefix_is_a_pattern_witness:
  "literal ''rhino-'' \<and> resolve ''rhino-2.3'' ''rhino-'' = Some (Some ''rhino-2.x'') \<and>
   strip_prefix ''rhino-'' ''rhino-2.3'' \<noteq> None \<and>
   load ''v+'' \<noteq> None \<and> \<not> literal ''v+'' \<and>
   (\<exists>b t. resolve b ''v+'' = Some (Some t) \<and> strip_prefix ''v+'' b = None)"
proof -
  have r: "resolve ''rhino-2.3'' ''rhino-'' = Some (Some ''rhino-2.x'')"
    by (simp add: eval_defs)
  have v: "load ''v+'' \<noteq> None" "\<not> literal ''v+''"
    by (simp_all add: load_def cls_of_def quant_of_def literal_def syntax_char_def)
  from prefix_is_a_pattern literal_examples(2) r v show ?thesis by blast
qed

section \<open>The claims about the run\<close>

text \<open>
  Claim C1 fails on the code when the prefix is not empty; the evaluation below is the
  failing input. Under the prefix \<open>rhino-\<close> the release branch \<open>rhino-1.0\<close> resolves to
  \<open>rhino-1.x\<close>, so the candidate of a head branch \<open>foo\<close> is \<open>foo-merge-rhino-1.x\<close>, or
  \<open>foo-1700000000000-merge-rhino-1.x\<close> on a collision. Neither matches the pattern of
  line 89, and a run whose head branch is that candidate sends no \<open>deleteRef\<close>. Under
  the empty prefix the candidate \<open>foo-merge-1.x\<close> matches and the run deletes it.
\<close>

theorem stale_candidate_unrecognised:
  "load ''rhino-'' = Some rhino_prefixed \<and>
   flow rhino_prefixed ''rhino-1.0'' = Some ''rhino-1.x'' \<and>
   first_name (example_pull ''rhino-1.0'' ''foo'') ''rhino-1.x'' = ''foo-merge-rhino-1.x'' \<and>
   retry_name (example_pull ''rhino-1.0'' ''foo'') all_ok ''rhino-1.x'' =
     ''foo-1700000000000-merge-rhino-1.x'' \<and>
   match ''foo-merge-rhino-1.x'' cleanup_pattern = None \<and>
   match ''foo-1700000000000-merge-rhino-1.x'' cleanup_pattern = None \<and>
   flow rhino_prefixed ''rhino-1.x'' = Some ''rhino-2.x'' \<and>
   outcomes is_DeleteRef
     (run rhino_prefixed (example_pull ''rhino-1.x'' ''foo-merge-rhino-1.x'') all_ok) = [] \<and>
   outcomes is_GetBranch
     (run rhino_prefixed (example_pull ''rhino-1.x'' ''foo-merge-rhino-1.x'') all_ok) =
     [None] \<and>
   match ''foo-merge-1.x'' cleanup_pattern \<noteq> None \<and>
   outcomes is_DeleteRef
     (run unprefixed (example_pull ''1.x'' ''foo-merge-1.x'') all_ok) = [None]"
proof -
  have n: "first_name (example_pull ''rhino-1.0'' ''foo'') ''rhino-1.x'' =
      ''foo-merge-rhino-1.x''"
    "retry_name (example_pull ''rhino-1.0'' ''foo'') all_ok ''rhino-1.x'' =
      ''foo-1700000000000-merge-rhino-1.x''"
    by (simp_all add: first_name_def retry_name_def example_pull_def all_ok_def show_int_def
        decimal.simps digit_char_def)
  have m: "match ''foo-merge-rhino-1.x'' cleanup_pattern = None"
    "match ''foo-1700000000000-merge-rhino-1.x'' cleanup_pattern = None"
    "match ''foo-merge-1.x'' cleanup_pattern \<noteq> None"
    by (simp_all add: cleanup_pattern_def lits_def match_def exec_from.simps is_digit_def)
  have r: "outcomes is_DeleteRef
      (run rhino_prefixed (example_pull ''rhino-1.x'' ''foo-merge-rhino-1.x'') all_ok) = []"
    "outcomes is_GetBranch
      (run rhino_prefixed (example_pull ''rhino-1.x'' ''foo-merge-rhino-1.x'') all_ok) =
      [None]"
    "outcomes is_DeleteRef
      (run unprefixed (example_pull ''1.x'' ''foo-merge-1.x'') all_ok) = [None]"
    using m by (simp_all add: outcomes_DeleteRef outcomes_GetBranch example_pull_def
        flow_rhino_prefixed flow_unprefixed all_ok_def thrown_def)
  from load_rhino_prefixed flow_rhino_prefixed n m r show ?thesis by simp
qed

text \<open>
  Claim C2. The exit status of a run is failed exactly when the second \<open>createRef\<close>
  call was sent and failed, or the \<open>pulls.create\<close> call was sent and failed. In a run
  that is not failed, every request that failed is followed by the two lines of its
  \<open>catch\<close> block, the error and a warning. In a failed run the same holds up to the last
  request, which is one of the two fatal ones; its error is the reason passed to
  \<open>core.setFailed\<close>, and nothing follows.
\<close>

theorem exit_status:
  "(failed (run K pull env) \<longleftrightarrow>
      (\<exists>r e. outcomes is_CreateRef (run K pull env) = [r, Some e]) \<or>
      (\<exists>e. outcomes is_PullsCreate (run K pull env) = [Some e])) \<and>
   (\<not> failed (run K pull env) \<longrightarrow> caught (run K pull env)) \<and>
   (failed (run K pull env) \<longrightarrow>
      (\<exists>pre c e. run K pull env = pre @ [Call c (Some e), SetFailed e] \<and> caught pre \<and>
                 (is_CreateRef c \<or> is_PullsCreate c)))"
  using failed_iff [of K pull env] caught_run [of K pull env] fatal_run [of K pull env]
  by blast

text \<open>
  The theorem at a run whose merge fails (status success, the failure caught) and at a
  run whose \<open>pulls.create\<close> fails (status failed).
\<close>

theorem exit_status_witness:
  "\<not> failed (run unprefixed (example_pull ''1.0'' ''feature-branch'')
              (all_ok\<lparr>on_merge := Inl ''Merge conflict''\<rparr>)) \<and>
   caught (run unprefixed (example_pull ''1.0'' ''feature-branch'')
              (all_ok\<lparr>on_merge := Inl ''Merge conflict''\<rparr>)) \<and>
   failed (run unprefixed (example_pull ''1.0'' ''feature-branch'')
              (all_ok\<lparr>on_pulls_create := Inl ''Validation Failed''\<rparr>)) \<and>
   outcomes is_PullsCreate (run unprefixed (example_pull ''1.0'' ''feature-branch'')
              (all_ok\<lparr>on_pulls_create := Inl ''Validation Failed''\<rparr>)) =
     [Some ''Validation Failed'']"
proof -
  have a: "\<not> failed (run unprefixed (example_pull ''1.0'' ''feature-branch'')
              (all_ok\<lparr>on_merge := Inl ''Merge conflict''\<rparr>))"
    by (simp add: run_eval)
  have b: "outcomes is_PullsCreate (run unprefixed (example_pull ''1.0'' ''feature-branch'')
              (all_ok\<lparr>on_pulls_create := Inl ''Validation Failed''\<rparr>)) =
     [Some ''Validation Failed'']"
    by (simp add: run_eval)
  from a b
    exit_status [of unprefixed "example_pull ''1.0'' ''feature-branch''"
      "all_ok\<lparr>on_merge := Inl ''Merge conflict''\<rparr>"]
    exit_status [of unprefixed "example_pull ''1.0'' ''feature-branch''"
      "all_ok\<lparr>on_pulls_create := Inl ''Validation Failed''\<rparr>"]
  show ?thesis by blast
qed

text \<open>
  Claim C5, as amended. In every run whose \<open>pulls.create\<close> call succeeds, auto-merge is
  attempted exactly when the merge of the target into the candidate branch succeeded;
  when the merge fails, one candidate branch and the pull request are created all the
  same, no auto-merge request is sent, the warning about skipping it is logged, and the
  status is success.
\<close>

theorem automerge_follows_merge:
  assumes "outcomes is_PullsCreate (run K pull env) = [None]"
  shows "(outcomes is_Graphql (run K pull env) \<noteq> [] \<longleftrightarrow>
            outcomes is_MergeBranch (run K pull env) = [None]) \<and>
         (\<forall>e. outcomes is_MergeBranch (run K pull env) = [Some e] \<longrightarrow>
            succeeded is_CreateRef (run K pull env) = 1 \<and>
            succeeded is_PullsCreate (run K pull env) = 1 \<and>
            outcomes is_Graphql (run K pull env) = [] \<and>
            CoreWarning ''Skipping auto-merge because there are merge conflicts''
              \<in> set (run K pull env) \<and>
            \<not> failed (run K pull env))"
proof (intro conjI allI impI)
  show "outcomes is_Graphql (run K pull env) \<noteq> [] \<longleftrightarrow>
      outcomes is_MergeBranch (run K pull env) = [None]"
    using assms by (simp add: outcomes_Graphql split: sum.splits)
next
  fix e
  assume m: "outcomes is_MergeBranch (run K pull env) = [Some e]"
  from assms show "succeeded is_CreateRef (run K pull env) = 1"
    by (auto simp: succeeded_def outcomes_CreateRef outcomes_PullsCreate create_step_snd
        thrown_def split: option.splits if_splits sum.splits)
  from assms show "succeeded is_PullsCreate (run K pull env) = 1"
    by (simp add: succeeded_def)
  from assms m show "outcomes is_Graphql (run K pull env) = []"
    by (simp add: outcomes_Graphql)
  from assms m show "CoreWarning ''Skipping auto-merge because there are merge conflicts''
      \<in> set (run K pull env)"
    by (rule skip_warning)
  from assms show "\<not> failed (run K pull env)"
    by (simp add: failed_iff outcomes_CreateRef outcomes_PullsCreate create_step_snd
        thrown_def split: option.splits if_splits sum.splits)
qed

text \<open>The theorem at scenario B: the merge of \<open>1.x\<close> into the candidate branch fails.\<close>

theorem automerge_follows_merge_witness:
  "outcomes is_PullsCreate (run unprefixed (example_pull ''1.0'' ''feature-branch'')
      (all_ok\<lparr>on_merge := Inl ''Merge conflict''\<rparr>)) = [None] \<and>
   outcomes is_MergeBranch (run unprefixed (example_pull ''1.0'' ''feature-branch'')
      (all_ok\<lparr>on_merge := Inl ''Merge conflict''\<rparr>)) = [Some ''Merge conflict''] \<and>
   succeeded is_CreateRef (run unprefixed (example_pull ''1.0'' ''feature-branch'')
      (all_ok\<lparr>on_merge := Inl ''Merge conflict''\<rparr>)) = 1 \<and>
   outcomes is_Graphql (run unprefixed (example_pull ''1.0'' ''feature-branch'')
      (all_ok\<lparr>on_merge := Inl ''Merge conflict''\<rparr>)) = [] \<and>
   CoreWarning ''Skipping auto-merge because there are merge conflicts''
     \<in> set (run unprefixed (example_pull ''1.0'' ''feature-branch'')
      (all_ok\<lparr>on_merge := Inl ''Merge conflict''\<rparr>)) \<and>
   \<not> failed (run unprefixed (example_pull ''1.0'' ''feature-branch'')
      (all_ok\<lparr>on_merge := Inl ''Merge conflict''\<rparr>))"
proof -
  let ?tr = "run unprefixed (example_pull ''1.0'' ''feature-branch'')
      (all_ok\<lparr>on_merge := Inl ''Merge conflict''\<rparr>)"
  have a: "outcomes is_PullsCreate ?tr = [None]"
    by (simp add: run_eval)
  have b: "outcomes is_MergeBranch ?tr = [Some ''Merge conflict'']"
    by (simp add: run_eval)
  from automerge_follows_merge [OF a] a b show ?thesis by blast
qed

text \<open>
  Claim C5 as stated fails when \<open>pulls.create\<close> itself fails. The first run reaches the
  creation of the pull request with a clean merge, and auto-merge is not attempted. The
  second reaches it after a failed merge, and no pull request is created and the run is
  failed.
\<close>

theorem automerge_follows_merge_counterexample:
  "outcomes is_PullsCreate (run unprefixed (example_pull ''1.0'' ''feature-branch'')
      (all_ok\<lparr>on_pulls_create := Inl ''Validation Failed''\<rparr>)) =
     [Some ''Validation Failed''] \<and>
   outcomes is_MergeBranch (run unprefixed (example_pull ''1.0'' ''feature-branch'')
      (all_ok\<lparr>on_pulls_create := Inl ''Validation Failed''\<rparr>)) = [None] \<and>
   outcomes is_Graphql (run unprefixed (example_pull ''1.0'' ''feature-branch'')
      (all_ok\<lparr>on_pulls_create := Inl ''Validation Failed''\<rparr>)) = [] \<and>
   outcomes is_PullsCreate (run unprefixed (example_pull ''1.0'' ''feature-branch'')
      (all_ok\<lparr>on_merge := Inl ''Merge conflict'',
              on_pulls_create := Inl ''Validation Failed''\<rparr>)) =
     [Some ''Validation Failed''] \<and>
   outcomes is_MergeBranch (run unprefixed (example_pull ''1.0'' ''feature-branch'')
      (all_ok\<lparr>on_merge := Inl ''Merge conflict'',
              on_pulls_create := Inl ''Validation Failed''\<rparr>)) =
     [Some ''Merge conflict''] \<and>
   succeeded is_PullsCreate (run unprefixed (example_pull ''1.0'' ''feature-branch'')
      (all_ok\<lparr>on_merge := Inl ''Merge conflict'',
              on_pulls_create := Inl ''Validation Failed''\<rparr>)) = 0 \<and>
   failed (run unprefixed (example_pull ''1.0'' ''feature-branch'')
      (all_ok\<lparr>on_merge := Inl ''Merge conflict'',
              on_pulls_create := Inl ''Validation Failed''\<rparr>))"
  by (simp add: run_eval)

text \<open>
  Claim C6. When the first \<open>createRef\<close> call fails, the run sends exactly one more, for
  the name \<open><headBranch>-<epochMillis>-merge-<target>\<close>. When the retry succeeds, the run
  is failed only if \<open>pulls.create\<close> fails later, and the pull request is opened from the
  retry's name. When the retry fails, its error is the reason of the failed run and
  nothing follows it.
\<close>

theorem create_retry:
  assumes "outcomes is_CreateRef (run K pull env) = Some e1 # rest"
  shows "\<exists>t r2. flow K (base_ref pull) = Some t \<and>
     requests is_CreateRef (run K pull env) =
       [(create_call pull (first_name pull t), Some e1),
        (create_call pull (retry_name pull env t), r2)] \<and>
     (r2 = None \<longrightarrow>
        (failed (run K pull env) \<longleftrightarrow>
           (\<exists>e. outcomes is_PullsCreate (run K pull env) = [Some e])) \<and>
        (\<exists>r. requests is_PullsCreate (run K pull env) =
               [(pull_call pull t (retry_name pull env t), r)])) \<and>
     (\<forall>e2. r2 = Some e2 \<longrightarrow>
        (\<exists>pre. run K pull env =
           pre @ [Call (create_call pull (retry_name pull env t)) (Some e2), SetFailed e2]))"
proof -
  from assms obtain t where t: "flow K (base_ref pull) = Some t"
    "thrown (on_getBranch env) = None" "on_createRef env = Inl e1"
    by (auto simp: outcomes_CreateRef split: option.splits if_splits sum.splits)
  let ?r2 = "thrown (on_createRef_retry env)"
  have a: "requests is_CreateRef (run K pull env) =
       [(create_call pull (first_name pull t), Some e1),
        (create_call pull (retry_name pull env t), ?r2)]"
    using t by (simp add: requests_CreateRef)
  have b: "failed (run K pull env) \<longleftrightarrow>
      (\<exists>e. outcomes is_PullsCreate (run K pull env) = [Some e])" if "?r2 = None"
    using t that
    by (auto simp: failed_run outcomes_PullsCreate create_step_snd thrown_def
        split: sum.splits)
  have c: "\<exists>r. requests is_PullsCreate (run K pull env) =
       [(pull_call pull t (retry_name pull env t), r)]" if "?r2 = None"
    using t that
    by (auto simp: requests_PullsCreate create_step_snd thrown_def split: sum.splits)
  have d: "\<exists>pre. run K pull env =
       pre @ [Call (create_call pull (retry_name pull env t)) (Some e2), SetFailed e2]"
    if "?r2 = Some e2" for e2
  proof -
    from that have "on_createRef_retry env = Inl e2"
      by (auto simp: thrown_def split: sum.splits)
    with t show ?thesis by (rule retry_fatal)
  qed
  show ?thesis
  proof (rule exI [of _ t], rule exI [of _ "?r2"], intro conjI impI allI)
    show "flow K (base_ref pull) = Some t" by (rule t(1))
    show "requests is_CreateRef (run K pull env) =
       [(create_call pull (first_name pull t), Some e1),
        (create_call pull (retry_name pull env t), ?r2)]" by (rule a)
    show "failed (run K pull env) \<longleftrightarrow>
        (\<exists>e. outcomes is_PullsCreate (run K pull env) = [Some e])" if "?r2 = None"
      using that by (rule b)
    show "\<exists>r. requests is_PullsCreate (run K pull env) =
        [(pull_call pull t (retry_name pull env t), r)]" if "?r2 = None"
      using that by (rule c)
    show "\<exists>pre. run K pull env =
        pre @ [Call (create_call pull (retry_name pull env t)) (Some e2), SetFailed e2]"
      if "?r2 = Some e2" for e2
      using that by (rule d)
  qed
qed

text \<open>
  The theorem at scenario D, where the first name is taken and the retry succeeds, and
  at a run where the retry fails as well.
\<close>

theorem create_retry_witness:
  "outcomes is_CreateRef (run unprefixed (example_pull ''1.0'' ''feature-branch'')
      (all_ok\<lparr>on_createRef := Inl ''Reference already exists''\<rparr>)) =
     [Some ''Reference already exists'', None] \<and>
   requests is_PullsCreate (run unprefixed (example_pull ''1.0'' ''feature-branch'')
      (all_ok\<lparr>on_createRef := Inl ''Reference already exists''\<rparr>)) =
     [(pull_call (example_pull ''1.0'' ''feature-branch'') ''1.x''
         ''feature-branch-1700000000000-merge-1.x'', None)] \<and>
   \<not> failed (run unprefixed (example_pull ''1.0'' ''feature-branch'')
      (all_ok\<lparr>on_createRef := Inl ''Reference already exists''\<rparr>)) \<and>
   outcomes is_CreateRef (run unprefixed (example_pull ''1.0'' ''feature-branch'')
      (all_ok\<lparr>on_createRef := Inl ''Reference already exists'',
              on_createRef_retry := Inl ''Bad credentials''\<rparr>)) =
     [Some ''Reference already exists'', Some ''Bad credentials''] \<and>
   failed (run unprefixed (example_pull ''1.0'' ''feature-branch'')
      (all_ok\<lparr>on_createRef := Inl ''Reference already exists'',
              on_createRef_retry := Inl ''Bad credentials''\<rparr>))"
proof -
  let ?p = "example_pull ''1.0'' ''feature-branch''"
  let ?e1 = "all_ok\<lparr>on_createRef := Inl ''Reference already exists''\<rparr>"
  let ?e2 = "all_ok\<lparr>on_createRef := Inl ''Reference already exists'',
              on_createRef_retry := Inl ''Bad credentials''\<rparr>"
  have a: "outcomes is_CreateRef (run unprefixed ?p ?e1) =
      Some ''Reference already exists'' # [None]"
    by (simp add: run_eval)
  have b: "outcomes is_CreateRef (run unprefixed ?p ?e2) =
      Some ''Reference already exists'' # [Some ''Bad credentials'']"
    by (simp add: run_eval)
  have n: "retry_name ?p ?e1 ''1.x'' = ''feature-branch-1700000000000-merge-1.x''"
    by (simp add: retry_name_def example_pull_def all_ok_def show_int_def decimal.simps
        digit_char_def)
  have f: "flow unprefixed (base_ref ?p) = Some ''1.x''"
    by (simp add: example_pull_def flow_unprefixed)
  from create_retry [OF a] obtain t r2 where h:
    "flow unprefixed (base_ref ?p) = Some t"
    "requests is_CreateRef (run unprefixed ?p ?e1) =
       [(create_call ?p (first_name ?p t), Some ''Reference already exists''),
        (create_call ?p (retry_name ?p ?e1 t), r2)]"
    "r2 = None \<longrightarrow>
        (failed (run unprefixed ?p ?e1) \<longleftrightarrow>
           (\<exists>e. outcomes is_PullsCreate (run unprefixed ?p ?e1) = [Some e])) \<and>
        (\<exists>r. requests is_PullsCreate (run unprefixed ?p ?e1) =
               [(pull_call ?p t (retry_name ?p ?e1 t), r)])"
    by blast
  from h(1) f have t: "t = ''1.x''" by simp
  from h(2) a have r2: "r2 = None" by (simp add: outcomes_requests)
  have o: "outcomes is_PullsCreate (run unprefixed ?p ?e1) = [None]"
    by (simp add: run_eval)
  from h(3) r2 o have 1: "\<not> failed (run unprefixed ?p ?e1)" by simp
  from h(3) r2 obtain r where "requests is_PullsCreate (run unprefixed ?p ?e1) =
      [(pull_call ?p t (retry_name ?p ?e1 t), r)]" by blast
  with o t n have 2: "requests is_PullsCreate (run unprefixed ?p ?e1) =
      [(pull_call ?p ''1.x'' ''feature-branch-1700000000000-merge-1.x'', None)]"
    by (simp add: outcomes_requests)
  from create_retry [OF b] obtain t' r2' where g:
    "requests is_CreateRef (run unprefixed ?p ?e2) =
       [(create_call ?p (first_name ?p t'), Some ''Reference already exists''),
        (create_call ?p (retry_name ?p ?e2 t'), r2')]"
    "\<forall>e2. r2' = Some e2 \<longrightarrow>
        (\<exists>pre. run unprefixed ?p ?e2 =
           pre @ [Call (create_call ?p (retry_name ?p ?e2 t')) (Some e2), SetFailed e2])"
    by blast
  from g(1) b have "r2' = Some ''Bad credentials''" by (simp add: outcomes_requests)
  with g(2) obtain pre where "run unprefixed ?p ?e2 =
      pre @ [Call (create_call ?p (retry_name ?p ?e2 t')) (Some ''Bad credentials''),
             SetFailed ''Bad credentials'']" by blast
  then have 3: "failed (run unprefixed ?p ?e2)" by (simp add: failed_def)
  from a b 1 2 3 show ?thesis by simp
qed

text \<open>
  Claim C7. When the \<open>getBranch\<close> call fails, the run ends with that request, its error
  and the warning about the missing branch: no \<open>createRef\<close> and no \<open>pulls.create\<close> is
  sent, and the status is success.
\<close>

theorem missing_target_stops:
  assumes "outcomes is_GetBranch (run K pull env) = [Some e]"
  shows "\<exists>t pre. flow K (base_ref pull) = Some t \<and>
     run K pull env =
       pre @ [Call (GetBranch (owner pull) (repo pull) t) (Some e), CoreError e,
              CoreWarning (''Skipping merge-down for non-existant branch: '' @ [CHR 0x27] @
                           t @ [CHR 0x27])] \<and>
     outcomes is_CreateRef (run K pull env) = [] \<and>
     outcomes is_PullsCreate (run K pull env) = [] \<and>
     \<not> failed (run K pull env)"
proof (cases rule: run_paths [of K pull env])
  case not_in_flow
  from assms not_in_flow(1) show ?thesis by (simp add: outcomes_GetBranch)
next
  case (no_target t e')
  from assms no_target(1,2) have e: "e' = e" by (simp add: outcomes_GetBranch thrown_def)
  have "run K pull env =
      (intro pull t @ cleanup_step pull env) @
      [Call (GetBranch (owner pull) (repo pull) t) (Some e), CoreError e,
       CoreWarning (''Skipping merge-down for non-existant branch: '' @ [CHR 0x27] @
                    t @ [CHR 0x27])]"
    using no_target(3) target_step_Inl [OF no_target(2), of pull t] e by simp
  moreover have "outcomes is_CreateRef (run K pull env) = []"
    "outcomes is_PullsCreate (run K pull env) = []" "\<not> failed (run K pull env)"
    using no_target(1,2)
    by (simp_all add: outcomes_CreateRef outcomes_PullsCreate failed_run thrown_def)
  ultimately show ?thesis using no_target(1) by blast
next
  case (create_failed t e')
  from assms create_failed(1,2) show ?thesis by (simp add: outcomes_GetBranch)
next
  case (pull_failed t nb e')
  from assms pull_failed(1,2) show ?thesis by (simp add: outcomes_GetBranch)
next
  case (complete t nb n)
  from assms complete(1,2) show ?thesis by (simp add: outcomes_GetBranch)
qed

text \<open>The theorem at scenario C: the base is \<open>1.x\<close> and the branch \<open>2.x\<close> does not exist.\<close>

theorem missing_target_stops_witness:
  "outcomes is_GetBranch (run unprefixed (example_pull ''1.x'' ''feature-branch'')
      (all_ok\<lparr>on_getBranch := Inl ''Branch not found''\<rparr>)) = [Some ''Branch not found''] \<and>
   flow unprefixed (base_ref (example_pull ''1.x'' ''feature-branch'')) = Some ''2.x'' \<and>
   outcomes is_CreateRef (run unprefixed (example_pull ''1.x'' ''feature-branch'')
      (all_ok\<lparr>on_getBranch := Inl ''Branch not found''\<rparr>)) = [] \<and>
   outcomes is_PullsCreate (run unprefixed (example_pull ''1.x'' ''feature-branch'')
      (all_ok\<lparr>on_getBranch := Inl ''Branch not found''\<rparr>)) = [] \<and>
   \<not> failed (run unprefixed (example_pull ''1.x'' ''feature-branch'')
      (all_ok\<lparr>on_getBranch := Inl ''Branch not found''\<rparr>))"
proof -
  have a: "outcomes is_GetBranch (run unprefixed (example_pull ''1.x'' ''feature-branch'')
      (all_ok\<lparr>on_getBranch := Inl ''Branch not found''\<rparr>)) = [Some ''Branch not found'']"
    by (simp add: run_eval)
  have f: "flow unprefixed (base_ref (example_pull ''1.x'' ''feature-branch'')) = Some ''2.x''"
    by (simp add: example_pull_def flow_unprefixed)
  from missing_target_stops [OF a] a f show ?thesis by blast
qed

text \<open>
  Claim C9, as amended. A run creates at most one branch ref and at most one pull
  request, and sends at most one \<open>deleteRef\<close> and at most one \<open>issues.update\<close>. A run that
  reaches the creation of the candidate branch creates exactly one, unless the first
  \<open>createRef\<close> call and the retry both fail: then it creates none and the run is failed.
\<close>

theorem at_most_one:
  "succeeded is_CreateRef (run K pull env) \<le> 1 \<and>
   succeeded is_PullsCreate (run K pull env) \<le> 1 \<and>
   length (outcomes is_DeleteRef (run K pull env)) \<le> 1 \<and>
   length (outcomes is_IssuesUpdate (run K pull env)) \<le> 1 \<and>
   (outcomes is_CreateRef (run K pull env) \<noteq> [] \<longrightarrow>
      succeeded is_CreateRef (run K pull env) = 1 \<or>
      (\<exists>e1 e2. outcomes is_CreateRef (run K pull env) = [Some e1, Some e2] \<and>
               succeeded is_CreateRef (run K pull env) = 0 \<and>
               failed (run K pull env)))"
proof (intro conjI impI)
  show "succeeded is_CreateRef (run K pull env) \<le> 1"
    by (simp add: succeeded_def outcomes_CreateRef split: option.splits sum.splits)
  show "succeeded is_PullsCreate (run K pull env) \<le> 1"
    by (simp add: succeeded_def outcomes_PullsCreate split: option.splits sum.splits)
  show "length (outcomes is_DeleteRef (run K pull env)) \<le> 1"
    by (simp add: outcomes_DeleteRef split: option.splits)
  show "length (outcomes is_IssuesUpdate (run K pull env)) \<le> 1"
    by (simp add: outcomes_IssuesUpdate)
  assume "outcomes is_CreateRef (run K pull env) \<noteq> []"
  then show "succeeded is_CreateRef (run K pull env) = 1 \<or>
      (\<exists>e1 e2. outcomes is_CreateRef (run K pull env) = [Some e1, Some e2] \<and>
               succeeded is_CreateRef (run K pull env) = 0 \<and>
               failed (run K pull env))"
    by (auto simp: succeeded_def outcomes_CreateRef failed_run create_step_snd thrown_def
        split: option.splits if_splits sum.splits)
qed

text \<open>The theorem at scenario A, where every request succeeds.\<close>

theorem at_most_one_witness:
  "outcomes is_CreateRef (run unprefixed (example_pull ''1.0'' ''feature-branch'') all_ok)
     \<noteq> [] \<and>
   succeeded is_CreateRef (run unprefixed (example_pull ''1.0'' ''feature-branch'') all_ok)
     = 1 \<and>
   succeeded is_PullsCreate (run unprefixed (example_pull ''1.0'' ''feature-branch'') all_ok)
     \<le> 1"
proof -
  let ?tr = "run unprefixed (example_pull ''1.0'' ''feature-branch'') all_ok"
  have a: "outcomes is_CreateRef ?tr \<noteq> []"
    by (simp add: run_eval)
  have b: "\<not> failed ?tr"
    by (simp add: run_eval)
  from at_most_one [of unprefixed "example_pull ''1.0'' ''feature-branch''" all_ok] a b
  show ?thesis by blast
qed

text \<open>
  Claim C9 as stated fails when the retry fails too: the run reaches the creation of
  the candidate branch, sends both \<open>createRef\<close> calls, and creates no branch.
\<close>

theorem at_most_one_counterexample:
  "outcomes is_CreateRef (run unprefixed (example_pull ''1.0'' ''feature-branch'')
      (all_ok\<lparr>on_createRef := Inl ''Reference already exists'',
              on_createRef_retry := Inl ''Reference already exists''\<rparr>)) =
     [Some ''Reference already exists'', Some ''Reference already exists''] \<and>
   succeeded is_CreateRef (run unprefixed (example_pull ''1.0'' ''feature-branch'')
      (all_ok\<lparr>on_createRef := Inl ''Reference already exists'',
              on_createRef_retry := Inl ''Reference already exists''\<rparr>)) = 0"
  by (simp add: run_eval)

end
